theory Spec2Isabelle
  imports Complex_Main "HOL-Library.AList" "HOL-Library.Multiset"
begin

section \<open>Strings\<close>

text \<open>
  JavaScript strings are modelled as \<^typ>\<open>string\<close> over ASCII: \<open>toLowerCase\<close> maps the
  letters A-Z to a-z and leaves every other character alone, \<open>trim\<close> strips the ASCII
  white space and line terminators (TAB, LF, VT, FF, CR, SP) from both ends. SQL's
  \<open>LOWER\<close> is taken to be the same function as \<open>toLowerCase\<close>.
\<close>

definition isUpper :: "char \<Rightarrow> bool" where
  "isUpper c \<longleftrightarrow> 65 \<le> (of_char c :: nat) \<and> (of_char c :: nat) \<le> 90"

definition toLowerChar :: "char \<Rightarrow> char" where
  "toLowerChar c = (if isUpper c then char_of ((of_char c :: nat) + 32) else c)"

definition toLowerCase :: "string \<Rightarrow> string" where
  "toLowerCase s = map toLowerChar s"

definition isWhiteSpace :: "char \<Rightarrow> bool" where
  "isWhiteSpace c \<longleftrightarrow> (of_char c :: nat) \<in> {9, 10, 11, 12, 13, 32}"

definition trim :: "string \<Rightarrow> string" where
  "trim s = rev (dropWhile isWhiteSpace (rev (dropWhile isWhiteSpace s)))"

text \<open>\<open>[...new Set(xs)]\<close>: the first occurrence of every element, in order.\<close>

fun new_Set :: "'a list \<Rightarrow> 'a list \<Rightarrow> 'a list" where
  "new_Set acc [] = acc"
| "new_Set acc (x # xs) = (if x \<in> set acc then new_Set acc xs else new_Set (acc @ [x]) xs)"

section \<open>Data model (shared/schema)\<close>

record User =
  user_id :: int
  user_name :: string
  user_email :: string
  user_password :: string
  user_image :: "string option"

record Post =
  post_id :: int
  post_title :: string
  post_body :: string
  post_authorId :: int
  post_createdAt :: int

record Tag =
  tag_id :: int
  tag_name :: string

record PostTag =
  pt_id :: int
  pt_postId :: int
  pt_tagId :: int

record Comment =
  comment_id :: int
  comment_body :: string
  comment_authorId :: int
  comment_postId :: int
  comment_createdAt :: int

text \<open>\<open>InsertPost\<close>, and \<open>Partial<InsertPost>\<close>, where every field may be absent.\<close>

record InsertPost =
  ip_title :: string
  ip_body :: string
  ip_tags :: "string list"

record PartialInsertPost =
  pip_title :: "string option"
  pip_body :: "string option"
  pip_tags :: "string list option"

record Author =
  author_id :: int
  author_name :: string

record PostWithDetails = Post +
  pwd_author :: Author
  pwd_tags :: "string list"
  pwd_commentCount :: nat

text \<open>Truthiness of an optional string: \<open>undefined\<close> and \<open>''\<close> are falsy.\<close>

definition truthy :: "string option \<Rightarrow> bool" where
  "truthy v = (case v of None \<Rightarrow> False | Some s \<Rightarrow> s \<noteq> [])"

text \<open>\<open>postData.tags && postData.tags.length > 0\<close>\<close>

definition tagsProvided :: "string list option \<Rightarrow> bool" where
  "tagsProvided v = (case v of None \<Rightarrow> False | Some ts \<Rightarrow> length ts > 0)"

section \<open>Dates\<close>

text \<open>
  A valid \<open>Date\<close> is its time value, the milliseconds since the epoch, an \<^typ>\<open>int\<close>; a
  \<open>Date\<close> that \<open>setHours\<close> may have made invalid is an \<^typ>\<open>int option\<close>, \<open>None\<close> for
  \<open>Invalid Date\<close> (the time value \<open>NaN\<close>). \<open>new Date()\<close> is the clock, always valid. The
  host's time zone is a parameter \<open>tza\<close>, ECMAScript's \<open>LocalTZA(t, isUTC)\<close>: the offset of
  local time from UTC at the instant \<open>t\<close>, \<open>t\<close> being a UTC time value when \<open>isUTC\<close> holds
  and a local one otherwise.

  A JavaScript \<open>number\<close> is a finite value, a rational, or one of \<open>NaN\<close>, \<open>Infinity\<close> and
  \<open>-Infinity\<close>, which \<open>setHours\<close> treats alike. Arithmetic on the finite values is exact in
  the model, where the code rounds to a double.
\<close>

datatype number = Finite rat | NonFinite

definition msPerHour :: int where "msPerHour = 3600000"
definition msPerDay :: int where "msPerDay = 86400000"

definition LocalTime :: "(int \<Rightarrow> bool \<Rightarrow> int) \<Rightarrow> int \<Rightarrow> int" where
  "LocalTime tza t = t + tza t True"

definition UTC :: "(int \<Rightarrow> bool \<Rightarrow> int) \<Rightarrow> int \<Rightarrow> int" where
  "UTC tza t = t - tza t False"

definition Day :: "int \<Rightarrow> int" where
  "Day t = t div msPerDay"

definition HourFromTime :: "int \<Rightarrow> int" where
  "HourFromTime t = (t div msPerHour) mod 24"

text \<open>\<open>ToIntegerOrInfinity\<close> of a finite number: the fraction is cut off, towards zero.\<close>

definition ToIntegerOrInfinity :: "rat \<Rightarrow> int" where
  "ToIntegerOrInfinity q = (if q < 0 then \<lceil>q\<rceil> else \<lfloor>q\<rfloor>)"

text \<open>\<open>TimeClip\<close>: a time value more than 8.64e15 ms from the epoch is no date.\<close>

definition TimeClip :: "int \<Rightarrow> int option" where
  "TimeClip t = (if \<bar>t\<bar> > 8640000000000000 then None else Some t)"

text \<open>\<open>getHours()\<close>: the hour of the local time.\<close>

definition getHours :: "(int \<Rightarrow> bool \<Rightarrow> int) \<Rightarrow> int \<Rightarrow> int" where
  "getHours tza tv = HourFromTime (LocalTime tza tv)"

text \<open>
  \<open>setHours(hour)\<close> on a valid date: the local day and the minutes, seconds and
  milliseconds of the local time are kept, the hour is replaced by the integer part of
  \<open>hour\<close> (\<open>MakeDate (Day t) (MakeTime hour min sec ms)\<close>, which is \<open>NaN\<close> when \<open>hour\<close> is not
  finite), and the result is converted back to UTC and clipped.
\<close>

definition setHours :: "(int \<Rightarrow> bool \<Rightarrow> int) \<Rightarrow> int \<Rightarrow> number \<Rightarrow> int option" where
  "setHours tza tv hour =
     (case hour of
        NonFinite \<Rightarrow> None
      | Finite q \<Rightarrow>
          (let t = LocalTime tza tv;
               date = Day t * msPerDay + (ToIntegerOrInfinity q * msPerHour + t mod msPerHour)
           in TimeClip (UTC tza date)))"

text \<open>\<open>x - hours\<close> for an integer \<open>x\<close>.\<close>

definition minus_number :: "int \<Rightarrow> number \<Rightarrow> number" where
  "minus_number x hours = (case hours of NonFinite \<Rightarrow> NonFinite | Finite q \<Rightarrow> Finite (of_int x - q))"

text \<open>\<open>const cutoffTime = new Date(); cutoffTime.setHours(cutoffTime.getHours() - hours)\<close>\<close>

definition cutoffTime :: "(int \<Rightarrow> bool \<Rightarrow> int) \<Rightarrow> int \<Rightarrow> number \<Rightarrow> int option" where
  "cutoffTime tza now hours = setHours tza now (minus_number (getHours tza now) hours)"

section \<open>DatabaseStorage\<close>

text \<open>
  The five tables are lists of rows; the \<open>serial\<close> columns of \<open>posts\<close>, \<open>tags\<close> and
  \<open>post_tags\<close> have their sequences. The order of the rows a query returns is not fixed
  by SQL; the model returns them in table order. A violated constraint (primary key,
  \<open>UNIQUE\<close> on \<open>tags.name\<close>) is an error value.
\<close>

datatype error = UniqueViolation | StorageError | RangeError

record db =
  db_users :: "User list"
  db_posts :: "Post list"
  db_tags :: "Tag list"
  db_postTags :: "PostTag list"
  db_comments :: "Comment list"
  db_posts_seq :: int
  db_tags_seq :: int
  db_postTags_seq :: int

definition db_getUser :: "db \<Rightarrow> int \<Rightarrow> User option" where
  "db_getUser s i = find (\<lambda>u. user_id u = i) (db_users s)"

definition db_getTagsByPostId :: "db \<Rightarrow> int \<Rightarrow> Tag list" where
  "db_getTagsByPostId s postId =
     concat (map (\<lambda>pt. filter (\<lambda>t. tag_id t = pt_tagId pt) (db_tags s))
                 (filter (\<lambda>pt. pt_postId pt = postId) (db_postTags s)))"

definition db_getPost :: "db \<Rightarrow> int \<Rightarrow> PostWithDetails option" where
  "db_getPost s i =
     (case find (\<lambda>p. post_id p = i) (db_posts s) of
        None \<Rightarrow> None
      | Some post \<Rightarrow>
          (case find (\<lambda>u. user_id u = post_authorId post) (db_users s) of
             None \<Rightarrow> None
           | Some author \<Rightarrow>
               Some \<lparr>post_id = post_id post, post_title = post_title post,
                     post_body = post_body post, post_authorId = post_authorId post,
                     post_createdAt = post_createdAt post,
                     pwd_author = \<lparr>author_id = user_id author, author_name = user_name author\<rparr>,
                     pwd_tags = map tag_name (db_getTagsByPostId s i),
                     pwd_commentCount =
                       length (filter (\<lambda>c. comment_postId c = i) (db_comments s))\<rparr>))"

text \<open>\<open>for (const postId of postIds) { ... if (postWithDetails) push }\<close>\<close>

definition db_collectPosts :: "db \<Rightarrow> int list \<Rightarrow> PostWithDetails list" where
  "db_collectPosts s postIds = List.map_filter (db_getPost s) postIds"

definition db_getPostsByTag :: "db \<Rightarrow> string \<Rightarrow> PostWithDetails list" where
  "db_getPostsByTag s tagName =
     (case find (\<lambda>t. tag_name t = tagName) (db_tags s) of
        None \<Rightarrow> []
      | Some tag \<Rightarrow>
          db_collectPosts s
            (map pt_postId (filter (\<lambda>pt. pt_tagId pt = tag_id tag) (db_postTags s))))"

definition db_getTagByName :: "db \<Rightarrow> string \<Rightarrow> Tag option" where
  "db_getTagByName s name =
     find (\<lambda>t. toLowerCase (tag_name t) = toLowerCase name) (db_tags s)"

definition db_createTag :: "db \<Rightarrow> string \<Rightarrow> error + (Tag \<times> db)" where
  "db_createTag s name =
     (let tag = \<lparr>tag_id = db_tags_seq s, tag_name = name\<rparr>;
          s1 = s\<lparr>db_tags_seq := db_tags_seq s + 1\<rparr>
      in if (\<exists>t \<in> set (db_tags s). tag_id t = tag_id tag \<or> tag_name t = name)
         then Inl UniqueViolation
         else Inr (tag, s1\<lparr>db_tags := db_tags s @ [tag]\<rparr>))"

definition db_addTagToPost :: "db \<Rightarrow> int \<Rightarrow> int \<Rightarrow> error + (PostTag \<times> db)" where
  "db_addTagToPost s postId tagId =
     (case find (\<lambda>pt. pt_postId pt = postId \<and> pt_tagId pt = tagId) (db_postTags s) of
        Some existingPostTag \<Rightarrow> Inr (existingPostTag, s)
      | None \<Rightarrow>
          (let postTag = \<lparr>pt_id = db_postTags_seq s, pt_postId = postId, pt_tagId = tagId\<rparr>;
               s1 = s\<lparr>db_postTags_seq := db_postTags_seq s + 1\<rparr>
           in if (\<exists>pt \<in> set (db_postTags s). pt_id pt = pt_id postTag)
              then Inl UniqueViolation
              else Inr (postTag, s1\<lparr>db_postTags := db_postTags s @ [postTag]\<rparr>)))"

definition db_removeTagFromPost :: "db \<Rightarrow> int \<Rightarrow> int \<Rightarrow> bool \<times> db" where
  "db_removeTagFromPost s postId tagId =
     (let hit = (\<lambda>pt. pt_postId pt = postId \<and> pt_tagId pt = tagId)
      in (\<exists>pt \<in> set (db_postTags s). hit pt,
          s\<lparr>db_postTags := filter (\<lambda>pt. \<not> hit pt) (db_postTags s)\<rparr>))"

text \<open>The canonical names: \<open>uniqueTags\<close> of \<open>DatabaseStorage.updatePostTags\<close>.\<close>

definition normalizedTags :: "string list \<Rightarrow> string list" where
  "normalizedTags tagNames = map (\<lambda>t. trim (toLowerCase t)) tagNames"

definition db_uniqueTags :: "string list \<Rightarrow> string list" where
  "db_uniqueTags tagNames = filter (\<lambda>t. t \<noteq> []) (new_Set [] (normalizedTags tagNames))"

text \<open>The body of the first loop of \<open>updatePostTags\<close>, for one tag name.\<close>

definition db_addTagName :: "int \<Rightarrow> string list \<Rightarrow> db \<Rightarrow> string \<Rightarrow> error + db" where
  "db_addTagName postId existingTagNames s tagName =
     (if tagName \<in> set existingTagNames then Inr s
      else
        (case (case db_getTagByName s tagName of
                 Some tag \<Rightarrow> Inr (tag, s)
               | None \<Rightarrow> db_createTag s tagName) of
           Inl e \<Rightarrow> Inl e
         | Inr (tag, s1) \<Rightarrow>
             (case db_addTagToPost s1 postId (tag_id tag) of
                Inl e \<Rightarrow> Inl e
              | Inr (_, s2) \<Rightarrow> Inr s2)))"

fun db_addTags :: "int \<Rightarrow> string list \<Rightarrow> db \<Rightarrow> string list \<Rightarrow> error + db" where
  "db_addTags postId existingTagNames s [] = Inr s"
| "db_addTags postId existingTagNames s (tagName # rest) =
     (case db_addTagName postId existingTagNames s tagName of
        Inl e \<Rightarrow> Inl e
      | Inr s1 \<Rightarrow> db_addTags postId existingTagNames s1 rest)"

text \<open>The second loop: remove the tags that are no longer wanted.\<close>

fun db_removeTags :: "int \<Rightarrow> string list \<Rightarrow> db \<Rightarrow> Tag list \<Rightarrow> db" where
  "db_removeTags postId uniqueTags s [] = s"
| "db_removeTags postId uniqueTags s (existingTag # rest) =
     (if toLowerCase (tag_name existingTag) \<notin> set uniqueTags
      then db_removeTags postId uniqueTags
             (snd (db_removeTagFromPost s postId (tag_id existingTag))) rest
      else db_removeTags postId uniqueTags s rest)"

definition db_updatePostTags :: "db \<Rightarrow> int \<Rightarrow> string list \<Rightarrow> error + (string list \<times> db)" where
  "db_updatePostTags s postId tagNames =
     (let existingTags = db_getTagsByPostId s postId;
          existingTagNames = map (\<lambda>t. toLowerCase (tag_name t)) existingTags;
          uniqueTags = db_uniqueTags tagNames
      in case db_addTags postId existingTagNames s uniqueTags of
           Inl e \<Rightarrow> Inl e
         | Inr s1 \<Rightarrow>
             (let s2 = db_removeTags postId uniqueTags s1 existingTags
              in Inr (map tag_name (db_getTagsByPostId s2 postId), s2)))"

text \<open>
  \<open>createPost\<close>: the row gets its id from the sequence and \<open>created_at\<close> from the clock
  (\<open>defaultNow()\<close>); the tags are set when the list is not empty.
\<close>

definition db_createPost :: "int \<Rightarrow> db \<Rightarrow> InsertPost \<Rightarrow> int \<Rightarrow> error + (Post \<times> db)" where
  "db_createPost now s postData authorId =
     (let post = \<lparr>post_id = db_posts_seq s, post_title = ip_title postData,
                  post_body = ip_body postData, post_authorId = authorId,
                  post_createdAt = now\<rparr>;
          s1 = s\<lparr>db_posts_seq := db_posts_seq s + 1\<rparr>
      in if (\<exists>p \<in> set (db_posts s). post_id p = post_id post) then Inl UniqueViolation
         else
           (let s2 = s1\<lparr>db_posts := db_posts s @ [post]\<rparr>
            in if length (ip_tags postData) > 0
               then (case db_updatePostTags s2 (post_id post) (ip_tags postData) of
                       Inl e \<Rightarrow> Inl e
                     | Inr (_, s3) \<Rightarrow> Inr (post, s3))
               else Inr (post, s2)))"

text \<open>
  \<open>updateData\<close>: the columns to set, title first. A falsy title or body (absent or
  \<open>''\<close>) is left out.
\<close>

definition updateData :: "PartialInsertPost \<Rightarrow> string option \<times> string option" where
  "updateData postData =
     (if truthy (pip_title postData) then pip_title postData else None,
      if truthy (pip_body postData) then pip_body postData else None)"

definition setColumns :: "string option \<times> string option \<Rightarrow> Post \<Rightarrow> Post" where
  "setColumns d p =
     (let p1 = (case fst d of None \<Rightarrow> p | Some t \<Rightarrow> p\<lparr>post_title := t\<rparr>)
      in case snd d of None \<Rightarrow> p1 | Some b \<Rightarrow> p1\<lparr>post_body := b\<rparr>)"

definition db_updatePost :: "db \<Rightarrow> int \<Rightarrow> PartialInsertPost \<Rightarrow> error + (Post option \<times> db)" where
  "db_updatePost s i postData =
     (if updateData postData = (None, None)
      then Inr (find (\<lambda>p. post_id p = i) (db_posts s), s)
      else
        (let s1 = s\<lparr>db_posts := map (\<lambda>p. if post_id p = i
                                             then setColumns (updateData postData) p else p)
                                      (db_posts s)\<rparr>
         in case find (\<lambda>p. post_id p = i) (db_posts s1) of
              None \<Rightarrow> Inr (None, s1)
            | Some updatedPost \<Rightarrow>
                (if tagsProvided (pip_tags postData)
                 then (case db_updatePostTags s1 i (the (pip_tags postData)) of
                         Inl e \<Rightarrow> Inl e
                       | Inr (_, s2) \<Rightarrow> Inr (Some updatedPost, s2))
                 else Inr (Some updatedPost, s1))))"

definition db_deletePost :: "db \<Rightarrow> int \<Rightarrow> bool \<times> db" where
  "db_deletePost s i =
     (let s1 = s\<lparr>db_comments := filter (\<lambda>c. comment_postId c \<noteq> i) (db_comments s)\<rparr>;
          s2 = s1\<lparr>db_postTags := filter (\<lambda>pt. pt_postId pt \<noteq> i) (db_postTags s1)\<rparr>;
          deleted = filter (\<lambda>p. post_id p = i) (db_posts s2)
      in (deleted \<noteq> [], s2\<lparr>db_posts := filter (\<lambda>p. post_id p \<noteq> i) (db_posts s2)\<rparr>))"

text \<open>
  The cut-off is a parameter of the query; an invalid date has no ISO string to send
  (\<open>toISOString\<close> raises \<open>RangeError\<close>).
\<close>

definition db_getPostsOlderThan ::
  "(int \<Rightarrow> bool \<Rightarrow> int) \<Rightarrow> int \<Rightarrow> db \<Rightarrow> number \<Rightarrow> error + Post list" where
  "db_getPostsOlderThan tza now s hours =
     (case cutoffTime tza now hours of
        None \<Rightarrow> Inl RangeError
      | Some cutoff \<Rightarrow> Inr (filter (\<lambda>p. post_createdAt p < cutoff) (db_posts s)))"

section \<open>MemStorage\<close>

text \<open>
  A JavaScript \<open>Map\<close> is an association list in insertion order: \<open>get\<close> is
  \<^const>\<open>map_of\<close>, \<open>set\<close> is \<^const>\<open>AList.update\<close> (an existing key keeps its place, a new
  one goes to the end), \<open>delete\<close> is \<^const>\<open>AList.delete\<close>, \<open>values()\<close> is \<open>map snd\<close>.
\<close>

record mem =
  mem_users :: "(int \<times> User) list"
  mem_posts :: "(int \<times> Post) list"
  mem_tags :: "(int \<times> Tag) list"
  mem_postTags :: "(int \<times> PostTag) list"
  mem_comments :: "(int \<times> Comment) list"
  mem_userId :: int
  mem_postId :: int
  mem_tagId :: int
  mem_postTagId :: int
  mem_commentId :: int

definition mem_getTagsByPostId :: "mem \<Rightarrow> int \<Rightarrow> Tag list" where
  "mem_getTagsByPostId s postId =
     List.map_filter (\<lambda>pt. map_of (mem_tags s) (pt_tagId pt))
       (filter (\<lambda>pt. pt_postId pt = postId) (map snd (mem_postTags s)))"

text \<open>Only the comments whose author exists are returned, so only they are counted.\<close>

definition mem_getCommentsByPostId :: "mem \<Rightarrow> int \<Rightarrow> (Comment \<times> Author) list" where
  "mem_getCommentsByPostId s postId =
     List.map_filter
       (\<lambda>c. if comment_postId c = postId
            then (case map_of (mem_users s) (comment_authorId c) of
                    None \<Rightarrow> None
                  | Some author \<Rightarrow>
                      Some (c, \<lparr>author_id = user_id author, author_name = user_name author\<rparr>))
            else None)
       (map snd (mem_comments s))"

definition mem_getPost :: "mem \<Rightarrow> int \<Rightarrow> PostWithDetails option" where
  "mem_getPost s i =
     (case map_of (mem_posts s) i of
        None \<Rightarrow> None
      | Some post \<Rightarrow>
          (case map_of (mem_users s) (post_authorId post) of
             None \<Rightarrow> None
           | Some author \<Rightarrow>
               Some \<lparr>post_id = post_id post, post_title = post_title post,
                     post_body = post_body post, post_authorId = post_authorId post,
                     post_createdAt = post_createdAt post,
                     pwd_author = \<lparr>author_id = user_id author, author_name = user_name author\<rparr>,
                     pwd_tags = map tag_name (mem_getTagsByPostId s i),
                     pwd_commentCount = length (mem_getCommentsByPostId s i)\<rparr>))"

definition mem_getTagByName :: "mem \<Rightarrow> string \<Rightarrow> Tag option" where
  "mem_getTagByName s name =
     find (\<lambda>tag. toLowerCase (tag_name tag) = toLowerCase name) (map snd (mem_tags s))"

definition mem_getPostsByTag :: "mem \<Rightarrow> string \<Rightarrow> PostWithDetails list" where
  "mem_getPostsByTag s tagName =
     (case mem_getTagByName s tagName of
        None \<Rightarrow> []
      | Some tag \<Rightarrow>
          List.map_filter (\<lambda>pt. mem_getPost s (pt_postId pt))
            (filter (\<lambda>pt. pt_tagId pt = tag_id tag) (map snd (mem_postTags s))))"

definition mem_createTag :: "mem \<Rightarrow> string \<Rightarrow> Tag \<times> mem" where
  "mem_createTag s name =
     (let i = mem_tagId s;
          tag = \<lparr>tag_id = i, tag_name = name\<rparr>
      in (tag, s\<lparr>mem_tagId := i + 1, mem_tags := AList.update i tag (mem_tags s)\<rparr>))"

definition mem_addTagToPost :: "mem \<Rightarrow> int \<Rightarrow> int \<Rightarrow> PostTag \<times> mem" where
  "mem_addTagToPost s postId tagId =
     (let i = mem_postTagId s;
          postTag = \<lparr>pt_id = i, pt_postId = postId, pt_tagId = tagId\<rparr>
      in (postTag,
          s\<lparr>mem_postTagId := i + 1, mem_postTags := AList.update i postTag (mem_postTags s)\<rparr>))"

text \<open>The first matching entry is deleted, and the loop returns at once.\<close>

definition mem_removeTagFromPost :: "mem \<Rightarrow> int \<Rightarrow> int \<Rightarrow> bool \<times> mem" where
  "mem_removeTagFromPost s postId tagId =
     (case find (\<lambda>(i, postTag). pt_postId postTag = postId \<and> pt_tagId postTag = tagId)
             (mem_postTags s) of
        Some (i, _) \<Rightarrow> (True, s\<lparr>mem_postTags := AList.delete i (mem_postTags s)\<rparr>)
      | None \<Rightarrow> (False, s))"

text \<open>\<open>uniqueTags\<close> of \<open>MemStorage.updatePostTags\<close>: the empty name is not filtered out.\<close>

definition mem_uniqueTags :: "string list \<Rightarrow> string list" where
  "mem_uniqueTags tagNames = new_Set [] (normalizedTags tagNames)"

definition mem_addTagName :: "int \<Rightarrow> string list \<Rightarrow> mem \<Rightarrow> string \<Rightarrow> mem" where
  "mem_addTagName postId existingTagNames s tagName =
     (if tagName = [] then s
      else if tagName \<in> set existingTagNames then s
      else
        (let (tag, s1) = (case mem_getTagByName s tagName of
                            Some tag \<Rightarrow> (tag, s)
                          | None \<Rightarrow> mem_createTag s tagName)
         in snd (mem_addTagToPost s1 postId (tag_id tag))))"

fun mem_addTags :: "int \<Rightarrow> string list \<Rightarrow> mem \<Rightarrow> string list \<Rightarrow> mem" where
  "mem_addTags postId existingTagNames s [] = s"
| "mem_addTags postId existingTagNames s (tagName # rest) =
     mem_addTags postId existingTagNames (mem_addTagName postId existingTagNames s tagName) rest"

fun mem_removeTags :: "int \<Rightarrow> string list \<Rightarrow> mem \<Rightarrow> Tag list \<Rightarrow> mem" where
  "mem_removeTags postId uniqueTags s [] = s"
| "mem_removeTags postId uniqueTags s (existingTag # rest) =
     (if toLowerCase (tag_name existingTag) \<notin> set uniqueTags
      then mem_removeTags postId uniqueTags
             (snd (mem_removeTagFromPost s postId (tag_id existingTag))) rest
      else mem_removeTags postId uniqueTags s rest)"

definition mem_updatePostTags :: "mem \<Rightarrow> int \<Rightarrow> string list \<Rightarrow> string list \<times> mem" where
  "mem_updatePostTags s postId tagNames =
     (let existingTags = mem_getTagsByPostId s postId;
          existingTagNames = map (\<lambda>t. toLowerCase (tag_name t)) existingTags;
          uniqueTags = mem_uniqueTags tagNames;
          s1 = mem_addTags postId existingTagNames s uniqueTags;
          s2 = mem_removeTags postId uniqueTags s1 existingTags
      in (map tag_name (mem_getTagsByPostId s2 postId), s2))"

definition mem_createPost :: "int \<Rightarrow> mem \<Rightarrow> InsertPost \<Rightarrow> int \<Rightarrow> Post \<times> mem" where
  "mem_createPost now s postData authorId =
     (let i = mem_postId s;
          post = \<lparr>post_id = i, post_title = ip_title postData, post_body = ip_body postData,
                  post_authorId = authorId, post_createdAt = now\<rparr>;
          s1 = s\<lparr>mem_postId := i + 1, mem_posts := AList.update i post (mem_posts s)\<rparr>
      in if length (ip_tags postData) > 0
         then (post, snd (mem_updatePostTags s1 i (ip_tags postData)))
         else (post, s1))"

definition mem_updatePost :: "mem \<Rightarrow> int \<Rightarrow> PartialInsertPost \<Rightarrow> Post option \<times> mem" where
  "mem_updatePost s i postData =
     (case map_of (mem_posts s) i of
        None \<Rightarrow> (None, s)
      | Some post \<Rightarrow>
          (let updatedPost = setColumns (updateData postData) post;
               s1 = s\<lparr>mem_posts := AList.update i updatedPost (mem_posts s)\<rparr>
           in if tagsProvided (pip_tags postData)
              then (Some updatedPost, snd (mem_updatePostTags s1 i (the (pip_tags postData))))
              else (Some updatedPost, s1)))"

text \<open>The two cascade loops of \<open>deletePost\<close>, over the entries of the map.\<close>

fun mem_deleteComments ::
  "int \<Rightarrow> (int \<times> Comment) list \<Rightarrow> (int \<times> Comment) list \<Rightarrow> (int \<times> Comment) list" where
  "mem_deleteComments i m [] = m"
| "mem_deleteComments i m ((commentId, comment) # rest) =
     (if comment_postId comment = i then mem_deleteComments i (AList.delete commentId m) rest
      else mem_deleteComments i m rest)"

fun mem_deletePostTags ::
  "int \<Rightarrow> (int \<times> PostTag) list \<Rightarrow> (int \<times> PostTag) list \<Rightarrow> (int \<times> PostTag) list" where
  "mem_deletePostTags i m [] = m"
| "mem_deletePostTags i m ((postTagId, postTag) # rest) =
     (if pt_postId postTag = i then mem_deletePostTags i (AList.delete postTagId m) rest
      else mem_deletePostTags i m rest)"

definition mem_deletePost :: "mem \<Rightarrow> int \<Rightarrow> bool \<times> mem" where
  "mem_deletePost s i =
     (if map_of (mem_posts s) i = None then (False, s)
      else
        (let s1 = s\<lparr>mem_comments := mem_deleteComments i (mem_comments s) (mem_comments s)\<rparr>;
             s2 = s1\<lparr>mem_postTags := mem_deletePostTags i (mem_postTags s1) (mem_postTags s1)\<rparr>
         in (map_of (mem_posts s2) i \<noteq> None,
             s2\<lparr>mem_posts := AList.delete i (mem_posts s2)\<rparr>)))"

text \<open>A comparison with an invalid date is false, so the filter keeps no post.\<close>

definition mem_getPostsOlderThan ::
  "(int \<Rightarrow> bool \<Rightarrow> int) \<Rightarrow> int \<Rightarrow> mem \<Rightarrow> number \<Rightarrow> Post list" where
  "mem_getPostsOlderThan tza now s hours =
     (case cutoffTime tza now hours of
        None \<Rightarrow> []
      | Some cutoff \<Rightarrow> filter (\<lambda>post. post_createdAt post < cutoff) (map snd (mem_posts s)))"

section \<open>The expiry job (server/scheduler.ts)\<close>

text \<open>
  What the job writes to the console, in order, and the ids it passes to \<open>deletePost\<close>.
  A failure of the store is not decided by the program: \<open>fails\<close> says for which post
  ids the store raises when asked to delete (the store is then left as it was). An
  exception leaves the loop and the rest of the \<open>try\<close> block, and is logged by the single
  \<open>catch\<close> around the whole job.
\<close>

datatype log_entry =
    Running | Found nat | Deleted int | Completed | NoPosts | JobError error

record job_state =
  js_store :: db
  js_console :: "log_entry list"
  js_deleteCalls :: "int list"

definition storage_deletePost :: "(int \<Rightarrow> bool) \<Rightarrow> db \<Rightarrow> int \<Rightarrow> error + (bool \<times> db)" where
  "storage_deletePost fails s i = (if fails i then Inl StorageError else Inr (db_deletePost s i))"

fun deleteEach :: "(int \<Rightarrow> bool) \<Rightarrow> job_state \<Rightarrow> Post list \<Rightarrow> error option \<times> job_state" where
  "deleteEach fails j [] = (None, j)"
| "deleteEach fails j (post # rest) =
     (let j1 = j\<lparr>js_deleteCalls := js_deleteCalls j @ [post_id post]\<rparr>
      in case storage_deletePost fails (js_store j1) (post_id post) of
           Inl e \<Rightarrow> (Some e, j1)
         | Inr (_, s1) \<Rightarrow>
             deleteEach fails
               (j1\<lparr>js_store := s1, js_console := js_console j1 @ [Deleted (post_id post)]\<rparr>)
               rest)"

definition scheduledJob :: "(int \<Rightarrow> bool \<Rightarrow> int) \<Rightarrow> int \<Rightarrow> (int \<Rightarrow> bool) \<Rightarrow> db \<Rightarrow> job_state" where
  "scheduledJob tza now fails s =
     (let j0 = \<lparr>js_store = s, js_console = [Running], js_deleteCalls = []\<rparr>;
          (thrown, j1) =
            (case db_getPostsOlderThan tza now s (Finite 24) of
               Inl e \<Rightarrow> (Some e, j0)
             | Inr oldPosts \<Rightarrow>
                 (if length oldPosts > 0
                  then (case deleteEach fails
                               (j0\<lparr>js_console := js_console j0 @ [Found (length oldPosts)]\<rparr>)
                               oldPosts of
                          (None, j) \<Rightarrow> (None, j\<lparr>js_console := js_console j @ [Completed]\<rparr>)
                        | (Some e, j) \<Rightarrow> (Some e, j))
                  else (None, j0\<lparr>js_console := js_console j0 @ [NoPosts]\<rparr>)))
      in case thrown of
           None \<Rightarrow> j1
         | Some e \<Rightarrow> j1\<lparr>js_console := js_console j1 @ [JobError e]\<rparr>)"

section \<open>Pagination of GET /api/posts (registerRoutes)\<close>

text \<open>
  The value of \<open>parseInt(req.query.page as string)\<close> is an input: \<open>None\<close> is \<open>NaN\<close> (the
  parameter is absent or does not start with a number), \<open>Some n\<close> the integer read.
  \<open>x || d\<close> yields \<open>d\<close> when \<open>x\<close> is falsy, and both \<open>NaN\<close> and \<open>0\<close> are.
\<close>

definition orDefault :: "int option \<Rightarrow> int \<Rightarrow> int" where
  "orDefault x d = (case x of None \<Rightarrow> d | Some n \<Rightarrow> if n = 0 then d else n)"

text \<open>\<open>Array.prototype.slice(start, end)\<close>, negative indices counting from the end.\<close>

definition slice :: "'a list \<Rightarrow> int \<Rightarrow> int \<Rightarrow> 'a list" where
  "slice xs start end =
     (let len = int (length xs);
          k = (if start < 0 then max (len + start) 0 else min start len);
          final = (if end < 0 then max (len + end) 0 else min end len)
      in take (nat (final - k)) (drop (nat k) xs))"

definition pageOf :: "int option \<Rightarrow> int" where
  "pageOf pageParam = max (orDefault pageParam 1) 1"

definition perPageOf :: "int option \<Rightarrow> int" where
  "perPageOf perPageParam = min (max (orDefault perPageParam 20) 1) 100"

record 'a page_response =
  resp_posts :: "'a list"
  resp_current_page :: int
  resp_total_pages :: int
  resp_total_count :: int

text \<open>\<open>Math.ceil(a / b)\<close> for integers \<open>a\<close> and \<open>b > 0\<close>.\<close>

definition ceilDiv :: "int \<Rightarrow> int \<Rightarrow> int" where
  "ceilDiv a b = - ((- a) div b)"

definition paginate :: "'a list \<Rightarrow> int option \<Rightarrow> int option \<Rightarrow> 'a page_response" where
  "paginate posts pageParam perPageParam =
     (let page = pageOf pageParam;
          perPage = perPageOf perPageParam;
          start = (page - 1) * perPage
      in \<lparr>resp_posts = slice posts start (start + perPage),
          resp_current_page = page,
          resp_total_pages = ceilDiv (int (length posts)) perPage,
          resp_total_count = int (length posts)\<rparr>)"

section \<open>Well-formed stores\<close>

text \<open>
  What the schema gives a \<open>DatabaseStorage\<close>: \<open>tags.id\<close> is a primary key, and the
  sequences of the \<open>serial\<close> columns are ahead of the ids in use.
\<close>

definition db_inv :: "db \<Rightarrow> bool" where
  "db_inv s \<longleftrightarrow>
     distinct (map tag_id (db_tags s))
     \<and> list_all (\<lambda>p. post_id p < db_posts_seq s) (db_posts s)
     \<and> list_all (\<lambda>t. tag_id t < db_tags_seq s) (db_tags s)
     \<and> list_all (\<lambda>pt. pt_id pt < db_postTags_seq s) (db_postTags s)"

text \<open>The post \<open>postId\<close> has a row for the tag \<open>tagId\<close>.\<close>

definition db_linked :: "db \<Rightarrow> int \<Rightarrow> int \<Rightarrow> bool" where
  "db_linked s postId tagId \<longleftrightarrow>
     list_ex (\<lambda>pt. pt_postId pt = postId \<and> pt_tagId pt = tagId) (db_postTags s)"

text \<open>
  \<open>s'\<close> comes from \<open>s\<close> by appending tags whose lower-cased names are in \<open>D\<close>, and rows
  that link the post \<open>postId\<close> to tags with such names; the other tables are the same.
\<close>

definition db_extends :: "int \<Rightarrow> string set \<Rightarrow> db \<Rightarrow> db \<Rightarrow> bool" where
  "db_extends postId D s s' \<longleftrightarrow>
     (\<exists>new. db_tags s' = db_tags s @ new \<and> (\<forall>t \<in> set new. toLowerCase (tag_name t) \<in> D))
     \<and> (\<exists>rows. db_postTags s' = db_postTags s @ rows
           \<and> (\<forall>pt \<in> set rows. pt_postId pt = postId
                 \<and> (\<exists>t \<in> set (db_tags s'). tag_id t = pt_tagId pt
                                            \<and> toLowerCase (tag_name t) \<in> D)))
     \<and> db_posts s' = db_posts s \<and> db_users s' = db_users s \<and> db_comments s' = db_comments s"

text \<open>
  What a \<open>MemStorage\<close> keeps: a \<open>Map\<close> has each key once; a tag is stored under its
  own id and has a name; the counters are ahead of the keys in use.
\<close>

definition mem_inv :: "mem \<Rightarrow> bool" where
  "mem_inv m \<longleftrightarrow>
     distinct (map fst (mem_tags m))
     \<and> list_all (\<lambda>(k, t). tag_id t = k \<and> k < mem_tagId m \<and> tag_name t \<noteq> []) (mem_tags m)
     \<and> distinct (map fst (mem_postTags m))
     \<and> list_all (\<lambda>(k, pt). k < mem_postTagId m) (mem_postTags m)"

definition mem_linked :: "mem \<Rightarrow> int \<Rightarrow> int \<Rightarrow> bool" where
  "mem_linked m postId tagId \<longleftrightarrow>
     list_ex (\<lambda>(k, pt). pt_postId pt = postId \<and> pt_tagId pt = tagId) (mem_postTags m)"

definition mem_extends :: "int \<Rightarrow> string set \<Rightarrow> mem \<Rightarrow> mem \<Rightarrow> bool" where
  "mem_extends postId D m m' \<longleftrightarrow>
     (\<exists>new. mem_tags m' = mem_tags m @ new
        \<and> (\<forall>t \<in> set (map snd new). toLowerCase (tag_name t) \<in> D))
     \<and> (\<exists>rows. mem_postTags m' = mem_postTags m @ rows
           \<and> (\<forall>pt \<in> set (map snd rows). pt_postId pt = postId
                 \<and> (\<exists>t \<in> set (map snd (mem_tags m')). tag_id t = pt_tagId pt
                                                      \<and> toLowerCase (tag_name t) \<in> D)))
     \<and> mem_posts m' = mem_posts m \<and> mem_users m' = mem_users m
     \<and> mem_comments m' = mem_comments m"

section \<open>Example stores\<close>

text \<open>A host whose local time is UTC.\<close>

definition utc_zone :: "int \<Rightarrow> bool \<Rightarrow> int" where
  "utc_zone t isUTC = 0"

text \<open>The store fails on the post \<open>k\<close> and on no other.\<close>

definition fails_on :: "int \<Rightarrow> int \<Rightarrow> bool" where
  "fails_on k i \<longleftrightarrow> i = k"

definition never_fails :: "int \<Rightarrow> bool" where
  "never_fails i \<longleftrightarrow> False"

text \<open>\<open>new MemStorage()\<close>\<close>

definition mem_new :: mem where
  "mem_new = \<lparr>mem_users = [], mem_posts = [], mem_tags = [], mem_postTags = [],
              mem_comments = [], mem_userId = 1, mem_postId = 1, mem_tagId = 1,
              mem_postTagId = 1, mem_commentId = 1\<rparr>"

definition alice :: User where
  "alice = \<lparr>user_id = 1, user_name = ''alice'', user_email = ''alice@example.org'',
            user_password = ''x'', user_image = None\<rparr>"

definition post1 :: Post where
  "post1 = \<lparr>post_id = 1, post_title = ''first'', post_body = ''one'', post_authorId = 1,
            post_createdAt = 0\<rparr>"

definition post2 :: Post where
  "post2 = \<lparr>post_id = 2, post_title = ''second'', post_body = ''two'', post_authorId = 1,
            post_createdAt = 1000\<rparr>"

definition comment1 :: Comment where
  "comment1 = \<lparr>comment_id = 1, comment_body = ''hi'', comment_authorId = 1,
               comment_postId = 1, comment_createdAt = 5\<rparr>"

text \<open>Two posts of alice; the first has one comment and the tag \<open>go\<close>.\<close>

definition db_tagged :: db where
  "db_tagged = \<lparr>db_users = [alice], db_posts = [post1, post2],
                db_tags = [\<lparr>tag_id = 1, tag_name = ''go''\<rparr>],
                db_postTags = [\<lparr>pt_id = 1, pt_postId = 1, pt_tagId = 1\<rparr>],
                db_comments = [comment1], db_posts_seq = 3, db_tags_seq = 2,
                db_postTags_seq = 2\<rparr>"

definition mem_tagged :: mem where
  "mem_tagged = \<lparr>mem_users = [(1, alice)], mem_posts = [(1, post1), (2, post2)],
                 mem_tags = [(1, \<lparr>tag_id = 1, tag_name = ''go''\<rparr>)],
                 mem_postTags = [(1, \<lparr>pt_id = 1, pt_postId = 1, pt_tagId = 1\<rparr>)],
                 mem_comments = [(1, comment1)], mem_userId = 2, mem_postId = 3,
                 mem_tagId = 2, mem_postTagId = 2, mem_commentId = 2\<rparr>"

text \<open>\<open>db_tagged\<close> after the tags of post 1 were set to \<open>API\<close>, \<open>api\<close>, \<open>Test\<close>.\<close>

definition db_api_test :: db where
  "db_api_test = db_tagged\<lparr>db_tags := [\<lparr>tag_id = 1, tag_name = ''go''\<rparr>,
                                         \<lparr>tag_id = 2, tag_name = ''api''\<rparr>,
                                         \<lparr>tag_id = 3, tag_name = ''test''\<rparr>],
                          db_postTags := [\<lparr>pt_id = 2, pt_postId = 1, pt_tagId = 2\<rparr>,
                                          \<lparr>pt_id = 3, pt_postId = 1, pt_tagId = 3\<rparr>],
                          db_tags_seq := 4, db_postTags_seq := 4\<rparr>"






text \<open>An update with a title, an empty body and two tags.\<close>

definition title_only :: PartialInsertPost where
  "title_only = \<lparr>pip_title = Some ''new title'', pip_body = Some [],
                  pip_tags = Some [''Go'', ''b'']\<rparr>"

section \<open>Pagination: proofs\<close>

lemma pageOf_ge_1: "1 \<le> pageOf p"
  by (simp add: pageOf_def)

lemma perPageOf_range: "1 \<le> perPageOf p \<and> perPageOf p \<le> 100"
  by (simp add: perPageOf_def)

lemma slice_take_drop:
  assumes "0 \<le> start" and "0 \<le> n"
  shows "slice xs start (start + n) = take (nat n) (drop (nat start) xs)"
proof (cases "start \<le> int (length xs)")
  case True
  have "take (nat (min (start + n) (int (length xs)) - start)) (drop (nat start) xs)
        = take (nat n) (drop (nat start) xs)"
  proof (cases "start + n \<le> int (length xs)")
    case True
    then show ?thesis by (simp add: min_def)
  next
    case False
    with True assms have "length (drop (nat start) xs) \<le> nat (int (length xs) - start)"
      and "length (drop (nat start) xs) \<le> nat n"
      by auto
    with False show ?thesis by (simp add: min_def)
  qed
  with True assms show ?thesis
    by (simp add: slice_def Let_def min_def)
next
  case False
  with assms show ?thesis
    by (simp add: slice_def Let_def min_def)
qed


text \<open>
  C10, as stated: \<open>per_page\<close> is clamped into 1..100, so a \<open>per_page\<close> of 0 would give pages
  of one post. The code reads 0 as absent (\<open>parseInt(...) || 20\<close>) and serves 20 posts.
\<close>

theorem paginate_per_page_zero_counterexample:
  "perPageOf (Some 0) = 20 \<and> perPageOf (Some 0) \<noteq> min (max 0 1) 100
   \<and> resp_posts (paginate [10, 11, 12 :: nat] (Some 1) (Some 0)) = [10, 11, 12]
   \<and> resp_posts (paginate [10, 11, 12 :: nat] (Some 1) (Some 0)) \<noteq> take 1 [10, 11, 12]"
  by (simp add: paginate_def perPageOf_def pageOf_def orDefault_def slice_def)

text \<open>
  C10, amended: the page is clamped below to 1 (1 when absent or unparseable);
  \<open>per_page\<close> is 20 when absent, unparseable or 0, and otherwise clamped into 1..100; the
  response holds exactly the slice of the full list that starts at index
  \<open>(page - 1) * per_page\<close> and has at most \<open>per_page\<close> elements, and \<open>total_count\<close> is the
  length of the full list.
\<close>

theorem paginate_slice:
  "resp_current_page (paginate posts pageParam perPageParam)
     = (case pageParam of None \<Rightarrow> 1 | Some n \<Rightarrow> max n 1)
   \<and> perPageOf perPageParam
     = (case perPageParam of None \<Rightarrow> 20
        | Some n \<Rightarrow> if n = 0 then 20 else min (max n 1) 100)
   \<and> 1 \<le> perPageOf perPageParam \<and> perPageOf perPageParam \<le> 100
   \<and> resp_posts (paginate posts pageParam perPageParam)
     = take (nat (perPageOf perPageParam))
         (drop (nat ((pageOf pageParam - 1) * perPageOf perPageParam)) posts)
   \<and> int (length (resp_posts (paginate posts pageParam perPageParam))) \<le> perPageOf perPageParam
   \<and> resp_total_count (paginate posts pageParam perPageParam) = int (length posts)"
proof -
  have p: "0 \<le> (pageOf pageParam - 1) * perPageOf perPageParam"
    using pageOf_ge_1 [of pageParam] perPageOf_range [of perPageParam] by simp
  have q: "0 \<le> perPageOf perPageParam"
    using perPageOf_range [of perPageParam] by simp
  have s: "resp_posts (paginate posts pageParam perPageParam)
     = take (nat (perPageOf perPageParam))
         (drop (nat ((pageOf pageParam - 1) * perPageOf perPageParam)) posts)"
    using slice_take_drop [OF p q] by (simp add: paginate_def Let_def)
  have l: "int (length (resp_posts (paginate posts pageParam perPageParam))) \<le> perPageOf perPageParam"
    unfolding s using q by simp
  have c: "resp_current_page (paginate posts pageParam perPageParam)
     = (case pageParam of None \<Rightarrow> 1 | Some n \<Rightarrow> max n 1)"
    by (simp add: paginate_def Let_def pageOf_def orDefault_def split: option.splits)
  have d: "perPageOf perPageParam
     = (case perPageParam of None \<Rightarrow> 20
        | Some n \<Rightarrow> if n = 0 then 20 else min (max n 1) 100)"
    by (simp add: perPageOf_def orDefault_def split: option.splits)
  have t: "resp_total_count (paginate posts pageParam perPageParam) = int (length posts)"
    by (simp add: paginate_def Let_def)
  from c d s l t perPageOf_range [of perPageParam] show ?thesis by blast
qed

section \<open>getPostsOlderThan: proofs\<close>




text \<open>With no valid cut-off, \<open>DatabaseStorage\<close> raises and \<open>MemStorage\<close> returns no post.\<close>

lemma getPostsOlderThan_invalid:
  assumes "cutoffTime tza now hours = None"
  shows "db_getPostsOlderThan tza now s hours = Inl RangeError"
    and "mem_getPostsOlderThan tza now m hours = []"
  using assms by (simp_all add: db_getPostsOlderThan_def mem_getPostsOlderThan_def)

lemma cutoffTime_NonFinite: "cutoffTime tza now NonFinite = None"
  by (simp add: cutoffTime_def setHours_def minus_number_def)




section \<open>deletePost: proofs\<close>

lemma mem_deleteComments_filter:
  "mem_deleteComments i m es
     = filter (\<lambda>(k, c). \<not> (\<exists>c'. (k, c') \<in> set es \<and> comment_postId c' = i)) m"
proof (induction es arbitrary: m)
  case Nil
  then show ?case by simp
next
  case (Cons e es)
  obtain k c where e: "e = (k, c)" by (cases e)
  show ?case
    unfolding e by (auto simp: Cons.IH AList.delete_eq intro!: filter_cong)
qed

lemma mem_deletePostTags_filter:
  "mem_deletePostTags i m es
     = filter (\<lambda>(k, pt). \<not> (\<exists>pt'. (k, pt') \<in> set es \<and> pt_postId pt' = i)) m"
proof (induction es arbitrary: m)
  case Nil
  then show ?case by simp
next
  case (Cons e es)
  obtain k c where e: "e = (k, c)" by (cases e)
  show ?case
    unfolding e by (auto simp: Cons.IH AList.delete_eq intro!: filter_cong)
qed

lemma db_deletePost_cascade:
  "db_deletePost s i = (r, s') \<Longrightarrow>
     (\<forall>c \<in> set (db_comments s'). comment_postId c \<noteq> i)
   \<and> (\<forall>pt \<in> set (db_postTags s'). pt_postId pt \<noteq> i)
   \<and> (\<forall>p \<in> set (db_posts s'). post_id p \<noteq> i)
   \<and> (r \<longleftrightarrow> (\<exists>p \<in> set (db_posts s). post_id p = i))"
  by (auto simp: db_deletePost_def Let_def filter_empty_conv)

lemma mem_deletePost_cascade:
  assumes "mem_deletePost m i = (r, m')"
  shows "(map_of (mem_posts m) i \<noteq> None \<longrightarrow>
            r \<and> (\<forall>c \<in> set (map snd (mem_comments m')). comment_postId c \<noteq> i)
              \<and> (\<forall>pt \<in> set (map snd (mem_postTags m')). pt_postId pt \<noteq> i)
              \<and> map_of (mem_posts m') i = None)
       \<and> (map_of (mem_posts m) i = None \<longrightarrow> \<not> r \<and> m' = m)"
  using assms
  by (auto simp: mem_deletePost_def Let_def mem_deleteComments_filter mem_deletePostTags_filter
        delete_conv' split: if_splits)

text \<open>
  C7: \<open>deletePost id\<close> leaves no comment and no post-tag row of that post and no post
  with that id; it returns true when the post existed and false, without an error, when
  it did not. In \<open>MemStorage\<close> the store is then unchanged. Both stores.
\<close>

theorem deletePost_cascade:
  assumes "db_deletePost s i = (r, s')" and "mem_deletePost m i = (r', m')"
  shows "((\<exists>p \<in> set (db_posts s). post_id p = i) \<longrightarrow> r)
       \<and> (\<not> (\<exists>p \<in> set (db_posts s). post_id p = i) \<longrightarrow> \<not> r)
       \<and> (\<forall>c \<in> set (db_comments s'). comment_postId c \<noteq> i)
       \<and> (\<forall>pt \<in> set (db_postTags s'). pt_postId pt \<noteq> i)
       \<and> (\<forall>p \<in> set (db_posts s'). post_id p \<noteq> i)
       \<and> (map_of (mem_posts m) i \<noteq> None \<longrightarrow>
            r' \<and> (\<forall>c \<in> set (map snd (mem_comments m')). comment_postId c \<noteq> i)
               \<and> (\<forall>pt \<in> set (map snd (mem_postTags m')). pt_postId pt \<noteq> i)
               \<and> map_of (mem_posts m') i = None)
       \<and> (map_of (mem_posts m) i = None \<longrightarrow> \<not> r' \<and> m' = m)"
  using db_deletePost_cascade [OF assms(1)] mem_deletePost_cascade [OF assms(2)]
  by blast

theorem deletePost_cascade_witness:
  "db_deletePost db_tagged 1
     = (True, db_tagged\<lparr>db_comments := [], db_postTags := [], db_posts := [post2]\<rparr>)
   \<and> mem_deletePost mem_tagged 1
     = (True, mem_tagged\<lparr>mem_comments := [], mem_postTags := [], mem_posts := [(2, post2)]\<rparr>)
   \<and> fst (db_deletePost db_tagged 7) = False \<and> mem_deletePost mem_tagged 7 = (False, mem_tagged)"
proof -
  have a: "db_deletePost db_tagged 1
     = (True, db_tagged\<lparr>db_comments := [], db_postTags := [], db_posts := [post2]\<rparr>)"
    by (simp add: db_deletePost_def db_tagged_def post1_def post2_def comment1_def)
  have b: "mem_deletePost mem_tagged 1
     = (True, mem_tagged\<lparr>mem_comments := [], mem_postTags := [], mem_posts := [(2, post2)]\<rparr>)"
    by (simp add: mem_deletePost_def mem_tagged_def post1_def post2_def comment1_def AList.delete_eq)
  have c: "db_deletePost db_tagged 7 = (False, db_tagged)"
    by (simp add: db_deletePost_def db_tagged_def post1_def post2_def comment1_def)
  have d: "mem_deletePost mem_tagged 7 = (False, mem_tagged)"
    by (simp add: mem_deletePost_def mem_tagged_def)
  show ?thesis
    using deletePost_cascade [OF a b] deletePost_cascade [OF c d] a b c d by simp
qed


section \<open>The expiry job: proofs\<close>

lemma deleteEach_failure:
  assumes "\<forall>q \<in> set pre. \<not> fails (post_id q)" and "fails (post_id p)"
  shows "fst (deleteEach fails j (pre @ p # rest)) = Some StorageError
       \<and> js_deleteCalls (snd (deleteEach fails j (pre @ p # rest)))
           = js_deleteCalls j @ map post_id pre @ [post_id p]
       \<and> js_console (snd (deleteEach fails j (pre @ p # rest)))
           = js_console j @ map (\<lambda>q. Deleted (post_id q)) pre"
  using assms
proof (induction pre arbitrary: j)
  case Nil
  then show ?case by (simp add: storage_deletePost_def)
next
  case (Cons q pre)
  then show ?case
    by (simp add: storage_deletePost_def Let_def split: prod.splits)
qed

lemma deleteEach_success:
  assumes "\<forall>q \<in> set ps. \<not> fails (post_id q)"
  shows "fst (deleteEach fails j ps) = None
       \<and> js_deleteCalls (snd (deleteEach fails j ps)) = js_deleteCalls j @ map post_id ps
       \<and> js_console (snd (deleteEach fails j ps))
           = js_console j @ map (\<lambda>q. Deleted (post_id q)) ps"
  using assms
proof (induction ps arbitrary: j)
  case Nil
  then show ?case by simp
next
  case (Cons q ps)
  then show ?case
    by (simp add: storage_deletePost_def Let_def split: prod.splits)
qed

text \<open>
  C3, as stated: when one delete of the batch fails, the remaining posts are still passed
  to \<open>deletePost\<close>. Here the batch is the posts 1 and 2 and the store fails on post 1:
  post 2 is never passed to \<open>deletePost\<close>.
\<close>

theorem sweep_not_isolated_counterexample:
  "db_getPostsOlderThan utc_zone 360000000 db_tagged (Finite 24) = Inr [post1, post2]
   \<and> map post_id [post1, post2] = [1, 2]
   \<and> js_deleteCalls (scheduledJob utc_zone 360000000 (fails_on 1) db_tagged) = [1]
   \<and> js_console (scheduledJob utc_zone 360000000 (fails_on 1) db_tagged)
       = [Running, Found 2, JobError StorageError]
   \<and> 2 \<notin> set (js_deleteCalls (scheduledJob utc_zone 360000000 (fails_on 1) db_tagged))"
  by code_simp

text \<open>
  C3, amended: when the delete of a post of the batch fails (and those before it did
  not), the failure is logged by the single \<open>catch\<close> of the job and the sweep ends there:
  \<open>deletePost\<close> has been called for the posts up to and including the failing one, in
  order, and for none of the remaining posts of the batch.
\<close>

theorem sweep_stops_at_first_failure:
  assumes "db_getPostsOlderThan tza now s (Finite 24) = Inr (pre @ p # rest)"
    and "\<forall>q \<in> set pre. \<not> fails (post_id q)"
    and "fails (post_id p)"
  shows "js_deleteCalls (scheduledJob tza now fails s) = map post_id pre @ [post_id p]
       \<and> js_console (scheduledJob tza now fails s)
           = [Running, Found (length (pre @ p # rest))]
             @ map (\<lambda>q. Deleted (post_id q)) pre @ [JobError StorageError]"
proof -
  let ?j = "\<lparr>js_store = s, js_console = [Running, Found (length (pre @ p # rest))],
             js_deleteCalls = []\<rparr>"
  obtain r j' where d: "deleteEach fails ?j (pre @ p # rest) = (r, j')"
    by (cases "deleteEach fails ?j (pre @ p # rest)")
  from deleteEach_failure [OF assms(2,3), of ?j rest] d
  have "r = Some StorageError" and "js_deleteCalls j' = map post_id pre @ [post_id p]"
    and "js_console j' = [Running, Found (length (pre @ p # rest))]
           @ map (\<lambda>q. Deleted (post_id q)) pre"
    by simp_all
  with d assms(1) show ?thesis
    by (simp add: scheduledJob_def Let_def)
qed

theorem sweep_stops_at_first_failure_witness:
  "js_deleteCalls (scheduledJob utc_zone 360000000 (fails_on 2) db_tagged) = [1, 2]
   \<and> js_console (scheduledJob utc_zone 360000000 (fails_on 2) db_tagged)
       = [Running, Found 2, Deleted 1, JobError StorageError]"
proof -
  have a: "db_getPostsOlderThan utc_zone 360000000 db_tagged (Finite 24) = Inr ([post1] @ post2 # [])"
    by code_simp
  have b: "\<forall>q \<in> set [post1]. \<not> fails_on 2 (post_id q)"
    by (simp add: fails_on_def post1_def)
  have c: "fails_on 2 (post_id post2)"
    by (simp add: fails_on_def post2_def)
  show ?thesis
    using sweep_stops_at_first_failure [OF a b c] by (simp add: post1_def post2_def)
qed

lemma sweep_without_failure:
  assumes "db_getPostsOlderThan tza now s (Finite 24) = Inr old"
    and "\<forall>q \<in> set old. \<not> fails (post_id q)"
  shows "js_deleteCalls (scheduledJob tza now fails s) = map post_id old"
proof (cases "old = []")
  case True
  with assms(1) show ?thesis by (simp add: scheduledJob_def Let_def)
next
  case False
  let ?j = "\<lparr>js_store = s, js_console = [Running, Found (length old)], js_deleteCalls = []\<rparr>"
  obtain r j' where d: "deleteEach fails ?j old = (r, j')"
    by (cases "deleteEach fails ?j old")
  from deleteEach_success [OF assms(2), of ?j] d
  have "r = None" and "js_deleteCalls j' = map post_id old" by simp_all
  with d False assms(1) show ?thesis by (simp add: scheduledJob_def Let_def)
qed

section \<open>addTagToPost and getPostsByTag: proofs\<close>

lemma db_addTagToPost_existing:
  assumes "\<exists>pt \<in> set (db_postTags s). pt_postId pt = postId \<and> pt_tagId pt = tagId"
  shows "\<exists>r. db_addTagToPost s postId tagId = Inr (r, s)"
proof -
  from assms
  have "find (\<lambda>pt. pt_postId pt = postId \<and> pt_tagId pt = tagId) (db_postTags s) \<noteq> None"
    by (auto simp: find_None_iff)
  then show ?thesis by (auto simp: db_addTagToPost_def)
qed

text \<open>
  C5: a second \<open>addTagToPost\<close> of the same pair is a no-op. \<open>DatabaseStorage\<close> looks the
  pair up first (\<open>db_addTagToPost_existing\<close>); \<open>MemStorage\<close> does not, and after two calls on
  a new store two rows share the pair (1, 1).
\<close>

theorem mem_addTagToPost_twice:
  "map snd (mem_postTags (snd (mem_addTagToPost (snd (mem_addTagToPost mem_new 1 1)) 1 1)))
     = [\<lparr>pt_id = 1, pt_postId = 1, pt_tagId = 1\<rparr>, \<lparr>pt_id = 2, pt_postId = 1, pt_tagId = 1\<rparr>]"
  by (simp add: mem_addTagToPost_def mem_new_def Let_def)

lemma mem_getPostsByTag_case_insensitive:
  "toLowerCase q = toLowerCase q' \<Longrightarrow> mem_getPostsByTag m q = mem_getPostsByTag m q'"
  by (simp add: mem_getPostsByTag_def mem_getTagByName_def)

lemma getPostsByTag_unknown:
  "\<forall>t \<in> set (db_tags s). tag_name t \<noteq> q \<Longrightarrow> db_getPostsByTag s q = []"
  "\<forall>t \<in> set (map snd (mem_tags m)). toLowerCase (tag_name t) \<noteq> toLowerCase q
     \<Longrightarrow> mem_getPostsByTag m q = []"
proof -
  assume "\<forall>t \<in> set (db_tags s). tag_name t \<noteq> q"
  then have "find (\<lambda>t. tag_name t = q) (db_tags s) = None"
    by (simp add: find_None_iff)
  then show "db_getPostsByTag s q = []" by (simp add: db_getPostsByTag_def)
next
  assume "\<forall>t \<in> set (map snd (mem_tags m)). toLowerCase (tag_name t) \<noteq> toLowerCase q"
  then have "mem_getTagByName m q = None"
    unfolding mem_getTagByName_def by (simp add: find_None_iff)
  then show "mem_getPostsByTag m q = []" by (simp add: mem_getPostsByTag_def)
qed

text \<open>
  C6: \<open>getPostsByTag\<close> resolves the tag name without regard to case. \<open>MemStorage\<close> does
  (through \<open>getTagByName\<close>); \<open>DatabaseStorage\<close> compares \<open>tags.name\<close> with the query as it
  is, so with the stored tag \<open>go\<close> the query \<open>Go\<close> finds no post.
\<close>

theorem db_getPostsByTag_case_sensitive:
  "db_getPostsByTag db_tagged ''Go'' = []
   \<and> db_getPostsByTag db_tagged ''go''
       = [\<lparr>post_id = 1, post_title = ''first'', post_body = ''one'', post_authorId = 1,
           post_createdAt = 0,
           pwd_author = \<lparr>author_id = 1, author_name = ''alice''\<rparr>,
           pwd_tags = [''go''], pwd_commentCount = 1\<rparr>]
   \<and> mem_getPostsByTag mem_tagged ''Go'' = mem_getPostsByTag mem_tagged ''go''
   \<and> map post_id (mem_getPostsByTag mem_tagged ''Go'') = [1]"
  by code_simp


section \<open>Strings: proofs\<close>

lemma of_char_toLowerChar_upper:
  "isUpper c \<Longrightarrow> (of_char (toLowerChar c) :: nat) = of_char c + 32"
  by (simp add: toLowerChar_def isUpper_def)

lemma not_isUpper_toLowerChar: "\<not> isUpper (toLowerChar c)"
proof (cases "isUpper c")
  case True
  from of_char_toLowerChar_upper [OF True] True show ?thesis
    by (simp add: isUpper_def)
next
  case False
  then show ?thesis by (simp add: toLowerChar_def)
qed

lemma toLowerChar_idem: "toLowerChar (toLowerChar c) = toLowerChar c"
  using not_isUpper_toLowerChar [of c] by (simp add: toLowerChar_def [of "toLowerChar c"])

lemma isWhiteSpace_toLowerChar: "isWhiteSpace (toLowerChar c) = isWhiteSpace c"
proof (cases "isUpper c")
  case True
  from of_char_toLowerChar_upper [OF True] True show ?thesis
    by (auto simp: isWhiteSpace_def isUpper_def)
next
  case False
  then show ?thesis by (simp add: toLowerChar_def)
qed

lemma toLowerCase_idem: "toLowerCase (toLowerCase s) = toLowerCase s"
  by (simp add: toLowerCase_def toLowerChar_idem)

lemma toLowerCase_trim: "toLowerCase (trim s) = trim (toLowerCase s)"
proof -
  have d: "dropWhile isWhiteSpace (map toLowerChar xs) = map toLowerChar (dropWhile isWhiteSpace xs)"
    for xs
    by (simp add: dropWhile_map comp_def isWhiteSpace_toLowerChar)
  show ?thesis
    by (simp add: toLowerCase_def trim_def rev_map d)
qed

lemma toLowerCase_canonical: "toLowerCase (trim (toLowerCase s)) = trim (toLowerCase s)"
  by (simp add: toLowerCase_trim toLowerCase_idem)

lemma set_new_Set: "set (new_Set acc xs) = set acc \<union> set xs"
  by (induction xs arbitrary: acc) auto

lemma distinct_new_Set: "distinct acc \<Longrightarrow> distinct (new_Set acc xs)"
  by (induction xs arbitrary: acc) auto

lemma set_db_uniqueTags:
  "set (db_uniqueTags names) = (\<lambda>n. trim (toLowerCase n)) ` set names - {[]}"
  by (auto simp: db_uniqueTags_def normalizedTags_def set_new_Set)

lemma set_mem_uniqueTags:
  "set (mem_uniqueTags names) = (\<lambda>n. trim (toLowerCase n)) ` set names"
  by (auto simp: mem_uniqueTags_def normalizedTags_def set_new_Set)

lemma db_uniqueTags_lower: "d \<in> set (db_uniqueTags names) \<Longrightarrow> toLowerCase d = d"
  by (auto simp: set_db_uniqueTags toLowerCase_canonical)

lemma mem_uniqueTags_lower: "d \<in> set (mem_uniqueTags names) \<Longrightarrow> toLowerCase d = d"
  by (auto simp: set_mem_uniqueTags toLowerCase_canonical)

section \<open>DatabaseStorage.updatePostTags: proofs\<close>

lemma db_linked_iff:
  "db_linked s p i \<longleftrightarrow> (\<exists>pt \<in> set (db_postTags s). pt_postId pt = p \<and> pt_tagId pt = i)"
  by (simp add: db_linked_def list_ex_iff)

lemma db_getTagsByPostId_iff:
  "t \<in> set (db_getTagsByPostId s p) \<longleftrightarrow> t \<in> set (db_tags s) \<and> db_linked s p (tag_id t)"
  by (auto simp: db_getTagsByPostId_def db_linked_iff)


lemma db_extends_refl: "db_extends p D s s"
  by (simp add: db_extends_def)

lemma db_extends_mono: "db_extends p D s s' \<Longrightarrow> D \<subseteq> D' \<Longrightarrow> db_extends p D' s s'"
  unfolding db_extends_def by (elim conjE exE, intro conjI exI) (assumption | blast)+

lemma db_extends_trans:
  assumes "db_extends p D s s'" and "db_extends p D s' s''"
  shows "db_extends p D s s''"
proof -
  from assms(1) obtain new rows where
    1: "db_tags s' = db_tags s @ new" "\<forall>t \<in> set new. toLowerCase (tag_name t) \<in> D"
       "db_postTags s' = db_postTags s @ rows"
       "\<forall>pt \<in> set rows. pt_postId pt = p
          \<and> (\<exists>t \<in> set (db_tags s'). tag_id t = pt_tagId pt \<and> toLowerCase (tag_name t) \<in> D)"
       "db_posts s' = db_posts s" "db_users s' = db_users s" "db_comments s' = db_comments s"
    unfolding db_extends_def by blast
  from assms(2) obtain new' rows' where
    2: "db_tags s'' = db_tags s' @ new'" "\<forall>t \<in> set new'. toLowerCase (tag_name t) \<in> D"
       "db_postTags s'' = db_postTags s' @ rows'"
       "\<forall>pt \<in> set rows'. pt_postId pt = p
          \<and> (\<exists>t \<in> set (db_tags s''). tag_id t = pt_tagId pt \<and> toLowerCase (tag_name t) \<in> D)"
       "db_posts s'' = db_posts s'" "db_users s'' = db_users s'" "db_comments s'' = db_comments s'"
    unfolding db_extends_def by blast
  have t: "db_tags s'' = db_tags s @ (new @ new')" using 1(1) 2(1) by simp
  have tn: "\<forall>t \<in> set (new @ new'). toLowerCase (tag_name t) \<in> D" using 1(2) 2(2) by auto
  have r: "db_postTags s'' = db_postTags s @ (rows @ rows')" using 1(3) 2(3) by simp
  have rn: "\<forall>pt \<in> set (rows @ rows'). pt_postId pt = p
          \<and> (\<exists>t \<in> set (db_tags s''). tag_id t = pt_tagId pt \<and> toLowerCase (tag_name t) \<in> D)"
    using 1(4) 2(4) 2(1) by auto
  show ?thesis
    unfolding db_extends_def using t tn r rn 1(5-7) 2(5-7) by metis
qed

lemma db_extends_linked: "db_extends p D s s' \<Longrightarrow> db_linked s q i \<Longrightarrow> db_linked s' q i"
  by (auto simp: db_extends_def db_linked_iff)

lemma db_extends_tags: "db_extends p D s s' \<Longrightarrow> t \<in> set (db_tags s) \<Longrightarrow> t \<in> set (db_tags s')"
  by (auto simp: db_extends_def)

lemma db_addTagToPost_cases:
  assumes "db_inv s"
  shows "(db_linked s p i \<and> (\<exists>r. db_addTagToPost s p i = Inr (r, s)))
       \<or> (\<not> db_linked s p i
          \<and> (\<exists>r. db_addTagToPost s p i
                = Inr (r, s\<lparr>db_postTags_seq := db_postTags_seq s + 1,
                            db_postTags := db_postTags s
                              @ [\<lparr>pt_id = db_postTags_seq s, pt_postId = p, pt_tagId = i\<rparr>]\<rparr>)))"
proof (cases "db_linked s p i")
  case True
  then have "find (\<lambda>pt. pt_postId pt = p \<and> pt_tagId pt = i) (db_postTags s) \<noteq> None"
    by (auto simp: find_None_iff db_linked_iff)
  with True show ?thesis by (auto simp: db_addTagToPost_def)
next
  case False
  then have n: "find (\<lambda>pt. pt_postId pt = p \<and> pt_tagId pt = i) (db_postTags s) = None"
    by (auto simp: find_None_iff db_linked_iff)
  from assms have "\<forall>pt \<in> set (db_postTags s). pt_id pt \<noteq> db_postTags_seq s"
    by (auto simp: db_inv_def list_all_iff)
  with False n show ?thesis by (simp add: db_addTagToPost_def Let_def)
qed

lemma db_addTagToPost_spec:
  assumes "db_inv s" and "t \<in> set (db_tags s)" and "tag_id t = i" and "toLowerCase (tag_name t) \<in> D"
  shows "\<exists>r s'. db_addTagToPost s p i = Inr (r, s') \<and> db_inv s' \<and> db_extends p D s s'
           \<and> db_linked s' p i"
proof -
  from db_addTagToPost_cases [OF assms(1), of p i]
  show ?thesis
  proof (elim disjE conjE exE)
    fix r assume "db_linked s p i" "db_addTagToPost s p i = Inr (r, s)"
    with assms(1) show ?thesis by (auto simp: db_extends_refl)
  next
    fix r
    let ?s' = "s\<lparr>db_postTags_seq := db_postTags_seq s + 1,
                 db_postTags := db_postTags s
                   @ [\<lparr>pt_id = db_postTags_seq s, pt_postId = p, pt_tagId = i\<rparr>]\<rparr>"
    assume a: "db_addTagToPost s p i = Inr (r, ?s')"
    have i: "db_inv ?s'" using assms(1) by (auto simp: db_inv_def list_all_iff)
    have e: "db_extends p D s ?s'"
      unfolding db_extends_def using assms(2-4) by auto
    have l: "db_linked ?s' p i" by (simp add: db_linked_iff)
    from a i e l show ?thesis by blast
  qed
qed

lemma db_createTag_spec:
  assumes "db_inv s" and "db_getTagByName s d = None"
  shows "db_createTag s d
           = Inr (\<lparr>tag_id = db_tags_seq s, tag_name = d\<rparr>,
                  s\<lparr>db_tags_seq := db_tags_seq s + 1,
                    db_tags := db_tags s @ [\<lparr>tag_id = db_tags_seq s, tag_name = d\<rparr>]\<rparr>)"
    and "db_inv (s\<lparr>db_tags_seq := db_tags_seq s + 1,
                    db_tags := db_tags s @ [\<lparr>tag_id = db_tags_seq s, tag_name = d\<rparr>]\<rparr>)"
proof -
  from assms(2) have n: "\<forall>t \<in> set (db_tags s). tag_name t \<noteq> d"
    by (auto simp: db_getTagByName_def find_None_iff)
  from assms(1) have i: "\<forall>t \<in> set (db_tags s). tag_id t < db_tags_seq s"
    by (simp add: db_inv_def list_all_iff)
  then have "\<forall>t \<in> set (db_tags s). tag_id t \<noteq> db_tags_seq s" by auto
  with n show "db_createTag s d
           = Inr (\<lparr>tag_id = db_tags_seq s, tag_name = d\<rparr>,
                  s\<lparr>db_tags_seq := db_tags_seq s + 1,
                    db_tags := db_tags s @ [\<lparr>tag_id = db_tags_seq s, tag_name = d\<rparr>]\<rparr>)"
    by (simp add: db_createTag_def Let_def)
  from assms(1) i show "db_inv (s\<lparr>db_tags_seq := db_tags_seq s + 1,
                    db_tags := db_tags s @ [\<lparr>tag_id = db_tags_seq s, tag_name = d\<rparr>]\<rparr>)"
    by (auto simp: db_inv_def list_all_iff)
qed

lemma db_addTagName_spec:
  assumes "db_inv s" and "toLowerCase d = d"
  shows "\<exists>s'. db_addTagName p ex s d = Inr s' \<and> db_inv s' \<and> db_extends p ({d} - set ex) s s'
           \<and> (d \<notin> set ex \<longrightarrow>
                (\<exists>t \<in> set (db_tags s'). toLowerCase (tag_name t) = d \<and> db_linked s' p (tag_id t)))"
proof (cases "d \<in> set ex")
  case True
  with assms show ?thesis by (simp add: db_addTagName_def db_extends_refl)
next
  case False
  show ?thesis
  proof (cases "db_getTagByName s d")
    case (Some t)
    then have t: "t \<in> set (db_tags s)" "toLowerCase (tag_name t) = d"
      using assms(2) by (auto simp: db_getTagByName_def find_Some_iff)
    with False have "toLowerCase (tag_name t) \<in> {d} - set ex" by simp
    from db_addTagToPost_spec [OF assms(1) t(1) refl this, of p]
    obtain r s' where a: "db_addTagToPost s p (tag_id t) = Inr (r, s')" "db_inv s'"
      "db_extends p ({d} - set ex) s s'" "db_linked s' p (tag_id t)"
      by blast
    from a(3) t(1) have "t \<in> set (db_tags s')" by (rule db_extends_tags)
    with a t(2) False Some show ?thesis
      by (auto simp: db_addTagName_def)
  next
    case None
    let ?t = "\<lparr>tag_id = db_tags_seq s, tag_name = d\<rparr>"
    let ?s1 = "s\<lparr>db_tags_seq := db_tags_seq s + 1, db_tags := db_tags s @ [?t]\<rparr>"
    note c = db_createTag_spec [OF assms(1) None]
    have e1: "db_extends p ({d} - set ex) s ?s1"
      using False assms(2) by (simp add: db_extends_def)
    have m: "?t \<in> set (db_tags ?s1)" by simp
    have "toLowerCase (tag_name ?t) \<in> {d} - set ex" using False assms(2) by simp
    from db_addTagToPost_spec [OF c(2) m _ this, of "db_tags_seq s" p]
    obtain r s' where a: "db_addTagToPost ?s1 p (db_tags_seq s) = Inr (r, s')" "db_inv s'"
      "db_extends p ({d} - set ex) ?s1 s'" "db_linked s' p (db_tags_seq s)"
      by auto
    from a(3) m have m': "?t \<in> set (db_tags s')" by (rule db_extends_tags)
    have e: "db_extends p ({d} - set ex) s s'" using e1 a(3) by (rule db_extends_trans)
    have "db_addTagName p ex s d = Inr s'"
      using False None c(1) a(1) by (simp add: db_addTagName_def)
    moreover have "\<exists>t \<in> set (db_tags s'). toLowerCase (tag_name t) = d \<and> db_linked s' p (tag_id t)"
      using m' a(4) assms(2) by (intro bexI [of _ ?t]) simp_all
    ultimately show ?thesis using a(2) e by blast
  qed
qed

lemma db_addTags_spec:
  assumes "db_inv s" and "\<forall>d \<in> set ds. toLowerCase d = d"
  shows "\<exists>s'. db_addTags p ex s ds = Inr s' \<and> db_inv s' \<and> db_extends p (set ds - set ex) s s'
           \<and> (\<forall>d \<in> set ds - set ex.
                \<exists>t \<in> set (db_tags s'). toLowerCase (tag_name t) = d \<and> db_linked s' p (tag_id t))"
  using assms
proof (induction ds arbitrary: s)
  case Nil
  then show ?case by (simp add: db_extends_refl)
next
  case (Cons d ds)
  from Cons.prems have ld: "toLowerCase d = d" by simp
  from db_addTagName_spec [OF Cons.prems(1) ld, of p ex]
  obtain s1 where 1: "db_addTagName p ex s d = Inr s1" "db_inv s1"
    "db_extends p ({d} - set ex) s s1"
    "d \<notin> set ex \<longrightarrow>
       (\<exists>t \<in> set (db_tags s1). toLowerCase (tag_name t) = d \<and> db_linked s1 p (tag_id t))"
    by blast
  from Cons.IH [OF 1(2)] Cons.prems(2)
  obtain s' where 2: "db_addTags p ex s1 ds = Inr s'" "db_inv s'"
    "db_extends p (set ds - set ex) s1 s'"
    "\<forall>d \<in> set ds - set ex.
       \<exists>t \<in> set (db_tags s'). toLowerCase (tag_name t) = d \<and> db_linked s' p (tag_id t)"
    by auto
  have e: "db_extends p (set (d # ds) - set ex) s s'"
    by (rule db_extends_trans [OF db_extends_mono [OF 1(3)] db_extends_mono [OF 2(3)]]) auto
  have "\<exists>t \<in> set (db_tags s'). toLowerCase (tag_name t) = d \<and> db_linked s' p (tag_id t)"
    if "d \<notin> set ex"
  proof -
    from 1(4) that obtain t where "t \<in> set (db_tags s1)" "toLowerCase (tag_name t) = d"
      "db_linked s1 p (tag_id t)" by blast
    with db_extends_tags [OF 2(3)] db_extends_linked [OF 2(3)] show ?thesis
      by blast
  qed
  with 2(4) have l: "\<forall>d' \<in> set (d # ds) - set ex.
       \<exists>t \<in> set (db_tags s'). toLowerCase (tag_name t) = d' \<and> db_linked s' p (tag_id t)"
    by auto
  from 1(1) 2(1) have "db_addTags p ex s (d # ds) = Inr s'" by simp
  with 2(2) e l show ?case by blast
qed


lemma db_removeTags_spec:
  "db_removeTags p U s es
     = s\<lparr>db_postTags :=
           filter (\<lambda>pt. \<not> (pt_postId pt = p
                            \<and> pt_tagId pt \<in> tag_id ` {e \<in> set es. toLowerCase (tag_name e) \<notin> set U}))
                  (db_postTags s)\<rparr>"
proof (induction es arbitrary: s)
  case Nil
  then show ?case by simp
next
  case (Cons e es)
  show ?case
  proof (cases "toLowerCase (tag_name e) \<in> set U")
    case True
    then have "{x \<in> set (e # es). toLowerCase (tag_name x) \<notin> set U}
             = {x \<in> set es. toLowerCase (tag_name x) \<notin> set U}" by auto
    with True show ?thesis by (simp add: Cons.IH)
  next
    case False
    then have "{x \<in> set (e # es). toLowerCase (tag_name x) \<notin> set U}
             = insert e {x \<in> set es. toLowerCase (tag_name x) \<notin> set U}" by auto
    with False show ?thesis
      by (auto simp: Cons.IH db_removeTagFromPost_def Let_def intro!: filter_cong
               arg_cong [where f = "\<lambda>x. db_postTags_update x s"])
  qed
qed

lemma db_removeTags_inv: "db_inv s \<Longrightarrow> db_inv (db_removeTags p U s es)"
  by (auto simp: db_removeTags_spec db_inv_def list_all_iff)

lemma db_inv_tag_eq:
  "db_inv s \<Longrightarrow> t \<in> set (db_tags s) \<Longrightarrow> t' \<in> set (db_tags s) \<Longrightarrow> tag_id t = tag_id t' \<Longrightarrow> t = t'"
  by (auto simp: db_inv_def dest: inj_on_eq_iff [OF iffD1 [OF distinct_map, THEN conjunct2]])

text \<open>The tags read back after the two loops are the wanted ones.\<close>

lemma db_updatePostTags_result:
  assumes "db_inv s"
  shows "\<exists>s'. db_updatePostTags s p names = Inr (map tag_name (db_getTagsByPostId s' p), s')
           \<and> db_inv s'
           \<and> toLowerCase ` tag_name ` set (db_getTagsByPostId s' p) = set (db_uniqueTags names)
           \<and> db_posts s' = db_posts s \<and> db_users s' = db_users s \<and> db_comments s' = db_comments s
           \<and> (\<forall>pt. pt_postId pt \<noteq> p \<longrightarrow> (pt \<in> set (db_postTags s') \<longleftrightarrow> pt \<in> set (db_postTags s)))"
proof -
  let ?es = "db_getTagsByPostId s p"
  let ?ex = "map (\<lambda>t. toLowerCase (tag_name t)) ?es"
  let ?U = "db_uniqueTags names"
  let ?R = "{e \<in> set ?es. toLowerCase (tag_name e) \<notin> set ?U}"
  have "\<forall>d \<in> set ?U. toLowerCase d = d" by (simp add: db_uniqueTags_lower)
  from db_addTags_spec [OF assms this, of p ?ex]
  obtain s1 where 1: "db_addTags p ?ex s ?U = Inr s1" "db_inv s1"
    "db_extends p (set ?U - set ?ex) s s1"
    "\<forall>d \<in> set ?U - set ?ex.
       \<exists>t \<in> set (db_tags s1). toLowerCase (tag_name t) = d \<and> db_linked s1 p (tag_id t)"
    by blast
  define s2 where "s2 = db_removeTags p ?U s1 ?es"
  have r: "db_updatePostTags s p names = Inr (map tag_name (db_getTagsByPostId s2 p), s2)"
    using 1(1) by (simp add: db_updatePostTags_def Let_def s2_def)
  have i2: "db_inv s2" unfolding s2_def using 1(2) by (rule db_removeTags_inv)
  have t2: "db_tags s2 = db_tags s1" by (simp add: s2_def db_removeTags_spec)
  have pt2: "db_postTags s2 = filter (\<lambda>pt. \<not> (pt_postId pt = p \<and> pt_tagId pt \<in> tag_id ` ?R))
                                (db_postTags s1)"
    by (simp add: s2_def db_removeTags_spec)
  have l2: "db_linked s2 q i \<longleftrightarrow> db_linked s1 q i \<and> \<not> (q = p \<and> i \<in> tag_id ` ?R)" for q i
    by (auto simp: db_linked_iff pt2)
  have old: "e \<in> set (db_tags s1)" if "e \<in> set ?es" for e
    using that 1(3) by (auto simp: db_getTagsByPostId_iff intro: db_extends_tags)
  have notR: "tag_id t \<notin> tag_id ` ?R"
    if "t \<in> set (db_tags s1)" "toLowerCase (tag_name t) \<in> set ?U" for t
  proof
    assume "tag_id t \<in> tag_id ` ?R"
    then obtain e where e: "e \<in> set ?es" "toLowerCase (tag_name e) \<notin> set ?U" "tag_id t = tag_id e"
      by auto
    from db_inv_tag_eq [OF 1(2) that(1) old [OF e(1)] e(3)] e(2) that(2) show False by simp
  qed
  have sub: "toLowerCase (tag_name t) \<in> set ?U" if "t \<in> set (db_getTagsByPostId s2 p)" for t
  proof (rule ccontr)
    assume n: "toLowerCase (tag_name t) \<notin> set ?U"
    from that have t: "t \<in> set (db_tags s1)" "db_linked s1 p (tag_id t)" "tag_id t \<notin> tag_id ` ?R"
      by (auto simp: db_getTagsByPostId_iff t2 l2)
    from 1(3) obtain new rows where
      x: "db_tags s1 = db_tags s @ new" "\<forall>t \<in> set new. toLowerCase (tag_name t) \<in> set ?U - set ?ex"
         "db_postTags s1 = db_postTags s @ rows"
         "\<forall>pt \<in> set rows. pt_postId pt = p
            \<and> (\<exists>t \<in> set (db_tags s1). tag_id t = pt_tagId pt
                  \<and> toLowerCase (tag_name t) \<in> set ?U - set ?ex)"
      unfolding db_extends_def by blast
    from t(1) n x(1,2) have ts: "t \<in> set (db_tags s)" by auto
    from t(2) obtain pt where pt: "pt \<in> set (db_postTags s1)" "pt_postId pt = p" "pt_tagId pt = tag_id t"
      by (auto simp: db_linked_iff)
    show False
    proof (cases "pt \<in> set rows")
      case True
      with x(4) pt(3) obtain t' where "t' \<in> set (db_tags s1)" "tag_id t' = tag_id t"
        "toLowerCase (tag_name t') \<in> set ?U" by auto
      with db_inv_tag_eq [OF 1(2) this(1) t(1)] n show False by simp
    next
      case False
      with pt x(3) have "db_linked s p (tag_id t)" by (auto simp: db_linked_iff)
      with ts have "t \<in> set ?es" by (simp add: db_getTagsByPostId_iff)
      with n t(3) show False by auto
    qed
  qed
  have sup: "d \<in> toLowerCase ` tag_name ` set (db_getTagsByPostId s2 p)" if d: "d \<in> set ?U" for d
  proof (cases "d \<in> set ?ex")
    case True
    then obtain e where e: "e \<in> set ?es" "toLowerCase (tag_name e) = d" by auto
    from e(1) have "db_linked s p (tag_id e)" by (simp add: db_getTagsByPostId_iff)
    with 1(3) have "db_linked s1 p (tag_id e)" by (rule db_extends_linked)
    moreover have "tag_id e \<notin> tag_id ` ?R" using notR [OF old [OF e(1)]] e(2) d by simp
    ultimately have "e \<in> set (db_getTagsByPostId s2 p)"
      using old [OF e(1)] by (simp add: db_getTagsByPostId_iff t2 l2)
    with e(2) show ?thesis by force
  next
    case False
    with 1(4) d obtain t where t: "t \<in> set (db_tags s1)" "toLowerCase (tag_name t) = d"
      "db_linked s1 p (tag_id t)" by blast
    have "tag_id t \<notin> tag_id ` ?R" using notR [OF t(1)] t(2) d by simp
    with t have "t \<in> set (db_getTagsByPostId s2 p)"
      by (simp add: db_getTagsByPostId_iff t2 l2)
    with t(2) show ?thesis by force
  qed
  have eq: "toLowerCase ` tag_name ` set (db_getTagsByPostId s2 p) = set ?U"
    using sub sup by auto
  have fr: "db_posts s2 = db_posts s \<and> db_users s2 = db_users s \<and> db_comments s2 = db_comments s"
    using 1(3) by (simp add: s2_def db_removeTags_spec db_extends_def)
  have oth: "\<forall>pt. pt_postId pt \<noteq> p \<longrightarrow> (pt \<in> set (db_postTags s2) \<longleftrightarrow> pt \<in> set (db_postTags s))"
    using 1(3) by (auto simp: pt2 db_extends_def)
  from r i2 eq fr oth show ?thesis by blast
qed


lemma db_addTags_noop: "set ds \<subseteq> set ex \<Longrightarrow> db_addTags p ex s ds = Inr s"
  by (induction ds) (auto simp: db_addTagName_def)

lemma db_removeTags_noop:
  "\<forall>e \<in> set es. toLowerCase (tag_name e) \<in> set U \<Longrightarrow> db_removeTags p U s es = s"
  by (induction es) auto

lemma db_updatePostTags_again:
  assumes "toLowerCase ` tag_name ` set (db_getTagsByPostId s p) = set (db_uniqueTags names)"
  shows "db_updatePostTags s p names = Inr (map tag_name (db_getTagsByPostId s p), s)"
proof -
  let ?es = "db_getTagsByPostId s p"
  let ?ex = "map (\<lambda>t. toLowerCase (tag_name t)) ?es"
  have "set (db_uniqueTags names) \<subseteq> set ?ex" using assms by auto
  then have a: "db_addTags p ?ex s (db_uniqueTags names) = Inr s" by (rule db_addTags_noop)
  have "\<forall>e \<in> set ?es. toLowerCase (tag_name e) \<in> set (db_uniqueTags names)"
    using assms by auto
  then have "db_removeTags p (db_uniqueTags names) s ?es = s" by (rule db_removeTags_noop)
  with a show ?thesis by (simp add: db_updatePostTags_def Let_def)
qed

text \<open>
  C2: calling \<open>updatePostTags\<close> twice in a row with the same names: the second call
  returns what the first returned and leaves the store exactly as the first call left
  it, so no association is added or removed.
\<close>

theorem db_updatePostTags_idempotent:
  assumes "db_inv s"
  shows "\<exists>r s1. db_updatePostTags s p names = Inr (r, s1)
               \<and> db_updatePostTags s1 p names = Inr (r, s1)"
proof -
  from db_updatePostTags_result [OF assms, of p names]
  obtain s1 where 1: "db_updatePostTags s p names = Inr (map tag_name (db_getTagsByPostId s1 p), s1)"
    "toLowerCase ` tag_name ` set (db_getTagsByPostId s1 p) = set (db_uniqueTags names)"
    by blast
  from db_updatePostTags_again [OF 1(2)] 1(1) show ?thesis by blast
qed

lemma db_inv_db_tagged: "db_inv db_tagged"
  by (simp add: db_inv_def db_tagged_def post1_def post2_def)

theorem db_updatePostTags_idempotent_witness:
  "db_updatePostTags db_tagged 1 [''API'', ''api'', ''Test''] = Inr ([''api'', ''test''], db_api_test)
   \<and> db_updatePostTags db_api_test 1 [''API'', ''api'', ''Test'']
       = Inr ([''api'', ''test''], db_api_test)"
proof -
  have a: "db_updatePostTags db_tagged 1 [''API'', ''api'', ''Test'']
             = Inr ([''api'', ''test''], db_api_test)"
    by code_simp
  from db_updatePostTags_idempotent [OF db_inv_db_tagged, of 1 "[''API'', ''api'', ''Test'']"] a
  show ?thesis by auto
qed


section \<open>MemStorage.updatePostTags: proofs\<close>

lemma toLowerCase_Nil_iff: "toLowerCase s = [] \<longleftrightarrow> s = []"
  by (simp add: toLowerCase_def)

lemma update_fresh: "k \<notin> fst ` set al \<Longrightarrow> AList.update k v al = al @ [(k, v)]"
  by (induction al) auto

lemma delete_absent: "k \<notin> fst ` set xs \<Longrightarrow> AList.delete k xs = xs"
  by (induction xs) auto

lemma delete_split:
  "k \<notin> fst ` set xs \<Longrightarrow> k \<notin> fst ` set ys \<Longrightarrow> AList.delete k (xs @ (k, v) # ys) = xs @ ys"
  by (induction xs) (auto simp: delete_absent)

lemma find_split:
  "find P ps = Some x \<Longrightarrow> \<exists>xs ys. ps = xs @ x # ys \<and> P x \<and> (\<forall>y \<in> set xs. \<not> P y)"
proof (induction ps)
  case Nil
  then show ?case by simp
next
  case (Cons a ps)
  show ?case
  proof (cases "P a")
    case True
    with Cons.prems have "a = x" by simp
    with True show ?thesis by (intro exI [of _ "[]"] exI [of _ ps]) simp
  next
    case False
    with Cons obtain xs ys where "ps = xs @ x # ys" "P x" "\<forall>y \<in> set xs. \<not> P y" by auto
    with False show ?thesis by (intro exI [of _ "a # xs"] exI [of _ ys]) simp
  qed
qed

lemma in_set_map_filter: "x \<in> set (List.map_filter f xs) \<longleftrightarrow> (\<exists>y \<in> set xs. f y = Some x)"
  by (induction xs) (auto simp: map_filter_simps split: option.splits)

lemma mem_linked_iff:
  "mem_linked m p i \<longleftrightarrow> (\<exists>pt \<in> set (map snd (mem_postTags m)). pt_postId pt = p \<and> pt_tagId pt = i)"
  by (force simp: mem_linked_def list_ex_iff)

lemma mem_inv_map_of:
  assumes "mem_inv m"
  shows "map_of (mem_tags m) i = Some t \<longleftrightarrow> t \<in> set (map snd (mem_tags m)) \<and> tag_id t = i"
proof -
  from assms have d: "distinct (map fst (mem_tags m))"
    and k: "\<And>k t. (k, t) \<in> set (mem_tags m) \<Longrightarrow> tag_id t = k"
    by (auto simp: mem_inv_def list_all_iff)
  have "map_of (mem_tags m) i = Some t \<longleftrightarrow> (i, t) \<in> set (mem_tags m)"
    using d by (rule map_of_eq_Some_iff)
  also have "\<dots> \<longleftrightarrow> t \<in> set (map snd (mem_tags m)) \<and> tag_id t = i"
    using k by force
  finally show ?thesis .
qed

lemma mem_getTagsByPostId_iff:
  assumes "mem_inv m"
  shows "t \<in> set (mem_getTagsByPostId m p)
           \<longleftrightarrow> t \<in> set (map snd (mem_tags m)) \<and> mem_linked m p (tag_id t)"
proof -
  have "t \<in> set (mem_getTagsByPostId m p)
      \<longleftrightarrow> (\<exists>pt \<in> set (map snd (mem_postTags m)). pt_postId pt = p
               \<and> map_of (mem_tags m) (pt_tagId pt) = Some t)"
    by (auto simp: mem_getTagsByPostId_def in_set_map_filter)
  also have "\<dots> \<longleftrightarrow> (\<exists>pt \<in> set (map snd (mem_postTags m)). pt_postId pt = p
               \<and> t \<in> set (map snd (mem_tags m)) \<and> tag_id t = pt_tagId pt)"
    by (simp only: mem_inv_map_of [OF assms])
  also have "\<dots> \<longleftrightarrow> t \<in> set (map snd (mem_tags m)) \<and> mem_linked m p (tag_id t)"
    unfolding mem_linked_iff by metis
  finally show ?thesis .
qed

lemma mem_inv_tag_eq:
  assumes "mem_inv m" and "t \<in> set (map snd (mem_tags m))" and "t' \<in> set (map snd (mem_tags m))"
    and "tag_id t = tag_id t'"
  shows "t = t'"
proof -
  have "map_of (mem_tags m) (tag_id t) = Some t"
    by (rule iffD2 [OF mem_inv_map_of [OF assms(1)]]) (rule conjI [OF assms(2) refl])
  moreover have "map_of (mem_tags m) (tag_id t') = Some t'"
    by (rule iffD2 [OF mem_inv_map_of [OF assms(1)]]) (rule conjI [OF assms(3) refl])
  ultimately show ?thesis using assms(4) by (metis option.inject)
qed

lemma mem_extends_refl: "mem_extends p D m m"
  by (simp add: mem_extends_def)

lemma mem_extends_mono: "mem_extends p D m m' \<Longrightarrow> D \<subseteq> D' \<Longrightarrow> mem_extends p D' m m'"
  unfolding mem_extends_def by (elim conjE exE, intro conjI exI) (assumption | blast)+

lemma mem_extends_trans:
  assumes "mem_extends p D m m'" and "mem_extends p D m' m''"
  shows "mem_extends p D m m''"
proof -
  from assms(1) obtain new rows where
    1: "mem_tags m' = mem_tags m @ new"
       "\<forall>t \<in> set (map snd new). toLowerCase (tag_name t) \<in> D"
       "mem_postTags m' = mem_postTags m @ rows"
       "\<forall>pt \<in> set (map snd rows). pt_postId pt = p
          \<and> (\<exists>t \<in> set (map snd (mem_tags m')). tag_id t = pt_tagId pt
                \<and> toLowerCase (tag_name t) \<in> D)"
       "mem_posts m' = mem_posts m" "mem_users m' = mem_users m"
       "mem_comments m' = mem_comments m"
    unfolding mem_extends_def by blast
  from assms(2) obtain new' rows' where
    2: "mem_tags m'' = mem_tags m' @ new'"
       "\<forall>t \<in> set (map snd new'). toLowerCase (tag_name t) \<in> D"
       "mem_postTags m'' = mem_postTags m' @ rows'"
       "\<forall>pt \<in> set (map snd rows'). pt_postId pt = p
          \<and> (\<exists>t \<in> set (map snd (mem_tags m'')). tag_id t = pt_tagId pt
                \<and> toLowerCase (tag_name t) \<in> D)"
       "mem_posts m'' = mem_posts m'" "mem_users m'' = mem_users m'"
       "mem_comments m'' = mem_comments m'"
    unfolding mem_extends_def by blast
  have t: "mem_tags m'' = mem_tags m @ (new @ new')" using 1(1) 2(1) by simp
  have tn: "\<forall>t \<in> set (map snd (new @ new')). toLowerCase (tag_name t) \<in> D"
    using 1(2) 2(2) by auto
  have r: "mem_postTags m'' = mem_postTags m @ (rows @ rows')" using 1(3) 2(3) by simp
  have rn: "\<forall>pt \<in> set (map snd (rows @ rows')). pt_postId pt = p
          \<and> (\<exists>t \<in> set (map snd (mem_tags m'')). tag_id t = pt_tagId pt
                \<and> toLowerCase (tag_name t) \<in> D)"
  proof
    fix pt assume "pt \<in> set (map snd (rows @ rows'))"
    then consider "pt \<in> set (map snd rows)" | "pt \<in> set (map snd rows')" by auto
    then show "pt_postId pt = p
          \<and> (\<exists>t \<in> set (map snd (mem_tags m'')). tag_id t = pt_tagId pt
                \<and> toLowerCase (tag_name t) \<in> D)"
    proof cases
      case 1
      with \<open>\<forall>pt \<in> set (map snd rows). _\<close> obtain t where "pt_postId pt = p"
        "t \<in> set (map snd (mem_tags m'))" "tag_id t = pt_tagId pt" "toLowerCase (tag_name t) \<in> D"
        by blast
      moreover from this(2) 2(1) have "t \<in> set (map snd (mem_tags m''))" by auto
      ultimately show ?thesis by blast
    next
      case 2
      with \<open>\<forall>pt \<in> set (map snd rows'). _\<close> show ?thesis by blast
    qed
  qed
  show ?thesis
    unfolding mem_extends_def using t tn r rn 1(5-7) 2(5-7) by metis
qed

lemma mem_extends_linked: "mem_extends p D m m' \<Longrightarrow> mem_linked m q i \<Longrightarrow> mem_linked m' q i"
  by (auto simp: mem_extends_def mem_linked_iff)

lemma mem_extends_tags:
  "mem_extends p D m m' \<Longrightarrow> t \<in> set (map snd (mem_tags m)) \<Longrightarrow> t \<in> set (map snd (mem_tags m'))"
  by (auto simp: mem_extends_def)

lemma mem_addTagToPost_spec:
  assumes "mem_inv m" and "t \<in> set (map snd (mem_tags m))" and "tag_id t = i"
    and "toLowerCase (tag_name t) \<in> D"
  shows "mem_inv (snd (mem_addTagToPost m p i))
       \<and> mem_extends p D m (snd (mem_addTagToPost m p i))
       \<and> mem_linked (snd (mem_addTagToPost m p i)) p i"
proof -
  let ?row = "\<lparr>pt_id = mem_postTagId m, pt_postId = p, pt_tagId = i\<rparr>"
  from assms(1) have "mem_postTagId m \<notin> fst ` set (mem_postTags m)"
    by (auto simp: mem_inv_def list_all_iff)
  then have u: "AList.update (mem_postTagId m) ?row (mem_postTags m)
                  = mem_postTags m @ [(mem_postTagId m, ?row)]"
    by (rule update_fresh)
  have s: "snd (mem_addTagToPost m p i)
             = m\<lparr>mem_postTagId := mem_postTagId m + 1,
                 mem_postTags := mem_postTags m @ [(mem_postTagId m, ?row)]\<rparr>"
    by (simp add: mem_addTagToPost_def Let_def u)
  have 1: "mem_inv (snd (mem_addTagToPost m p i))"
    unfolding s using assms(1) by (auto simp: mem_inv_def list_all_iff)
  have 2: "mem_extends p D m (snd (mem_addTagToPost m p i))"
    unfolding s mem_extends_def using assms(2-4) by auto
  have 3: "mem_linked (snd (mem_addTagToPost m p i)) p i"
    unfolding s by (simp add: mem_linked_iff)
  from 1 2 3 show ?thesis by blast
qed

lemma mem_createTag_spec:
  assumes "mem_inv m" and "d \<noteq> []"
  shows "mem_createTag m d
           = (\<lparr>tag_id = mem_tagId m, tag_name = d\<rparr>,
              m\<lparr>mem_tagId := mem_tagId m + 1,
                mem_tags := mem_tags m @ [(mem_tagId m, \<lparr>tag_id = mem_tagId m, tag_name = d\<rparr>)]\<rparr>)"
    and "mem_inv (m\<lparr>mem_tagId := mem_tagId m + 1,
                mem_tags := mem_tags m @ [(mem_tagId m, \<lparr>tag_id = mem_tagId m, tag_name = d\<rparr>)]\<rparr>)"
proof -
  from assms(1) have "mem_tagId m \<notin> fst ` set (mem_tags m)"
    by (auto simp: mem_inv_def list_all_iff)
  then have "AList.update (mem_tagId m) \<lparr>tag_id = mem_tagId m, tag_name = d\<rparr> (mem_tags m)
                  = mem_tags m @ [(mem_tagId m, \<lparr>tag_id = mem_tagId m, tag_name = d\<rparr>)]"
    by (rule update_fresh)
  then show "mem_createTag m d
           = (\<lparr>tag_id = mem_tagId m, tag_name = d\<rparr>,
              m\<lparr>mem_tagId := mem_tagId m + 1,
                mem_tags := mem_tags m @ [(mem_tagId m, \<lparr>tag_id = mem_tagId m, tag_name = d\<rparr>)]\<rparr>)"
    by (simp add: mem_createTag_def Let_def)
  from assms show "mem_inv (m\<lparr>mem_tagId := mem_tagId m + 1,
                mem_tags := mem_tags m @ [(mem_tagId m, \<lparr>tag_id = mem_tagId m, tag_name = d\<rparr>)]\<rparr>)"
    by (auto simp: mem_inv_def list_all_iff)
qed


lemma mem_addTagName_spec:
  assumes "mem_inv m" and "toLowerCase d = d"
  shows "mem_inv (mem_addTagName p ex m d)
       \<and> mem_extends p ({d} - set ex - {[]}) m (mem_addTagName p ex m d)
       \<and> (d \<notin> set ex \<and> d \<noteq> [] \<longrightarrow>
            (\<exists>t \<in> set (map snd (mem_tags (mem_addTagName p ex m d))).
               toLowerCase (tag_name t) = d \<and> mem_linked (mem_addTagName p ex m d) p (tag_id t)))"
proof (cases "d = [] \<or> d \<in> set ex")
  case True
  with assms show ?thesis by (auto simp: mem_addTagName_def mem_extends_refl)
next
  case False
  then have ne: "d \<noteq> []" and nx: "d \<notin> set ex" by auto
  let ?D = "{d} - set ex - {[]}"
  show ?thesis
  proof (cases "mem_getTagByName m d")
    case (Some t)
    then have t: "t \<in> set (map snd (mem_tags m))" "toLowerCase (tag_name t) = d"
      using assms(2) by (auto simp: mem_getTagByName_def find_Some_iff)
    from t(2) ne nx have "toLowerCase (tag_name t) \<in> ?D" by simp
    note a = mem_addTagToPost_spec [OF assms(1) t(1) refl this, of p]
    have r: "mem_addTagName p ex m d = snd (mem_addTagToPost m p (tag_id t))"
      using ne nx Some by (simp add: mem_addTagName_def)
    from a have "t \<in> set (map snd (mem_tags (snd (mem_addTagToPost m p (tag_id t)))))"
      using t(1) by (blast intro: mem_extends_tags)
    with a t(2) show ?thesis unfolding r by blast
  next
    case None
    let ?t = "\<lparr>tag_id = mem_tagId m, tag_name = d\<rparr>"
    let ?m1 = "m\<lparr>mem_tagId := mem_tagId m + 1, mem_tags := mem_tags m @ [(mem_tagId m, ?t)]\<rparr>"
    note c = mem_createTag_spec [OF assms(1) ne]
    have e1: "mem_extends p ?D m ?m1"
      using ne nx assms(2) by (simp add: mem_extends_def)
    have mt: "?t \<in> set (map snd (mem_tags ?m1))" by simp
    have "toLowerCase (tag_name ?t) \<in> ?D" using ne nx assms(2) by simp
    note a = mem_addTagToPost_spec [OF c(2) mt _ this, of "mem_tagId m" p, simplified]
    have r: "mem_addTagName p ex m d = snd (mem_addTagToPost ?m1 p (mem_tagId m))"
      using ne nx None c(1) by (simp add: mem_addTagName_def)
    let ?m2 = "snd (mem_addTagToPost ?m1 p (mem_tagId m))"
    from a have a1: "mem_inv ?m2" and a2: "mem_extends p ?D ?m1 ?m2"
      and a3: "mem_linked ?m2 p (mem_tagId m)" by simp_all
    have e: "mem_extends p ?D m ?m2" using e1 a2 by (rule mem_extends_trans)
    have "?t \<in> set (map snd (mem_tags ?m2))" using a2 mt by (rule mem_extends_tags)
    then have "\<exists>t \<in> set (map snd (mem_tags ?m2)).
                 toLowerCase (tag_name t) = d \<and> mem_linked ?m2 p (tag_id t)"
      using a3 assms(2) by (intro bexI [of _ ?t]) simp_all
    with a1 e show ?thesis unfolding r by blast
  qed
qed

lemma mem_addTags_spec:
  assumes "mem_inv m" and "\<forall>d \<in> set ds. toLowerCase d = d"
  shows "mem_inv (mem_addTags p ex m ds)
       \<and> mem_extends p (set ds - set ex - {[]}) m (mem_addTags p ex m ds)
       \<and> (\<forall>d \<in> set ds - set ex - {[]}.
            \<exists>t \<in> set (map snd (mem_tags (mem_addTags p ex m ds))).
               toLowerCase (tag_name t) = d \<and> mem_linked (mem_addTags p ex m ds) p (tag_id t))"
  using assms
proof (induction ds arbitrary: m)
  case Nil
  then show ?case by (simp add: mem_extends_refl)
next
  case (Cons d ds)
  define m1 where "m1 = mem_addTagName p ex m d"
  define m' where "m' = mem_addTags p ex m1 ds"
  from Cons.prems have ld: "toLowerCase d = d" by simp
  note s1 = mem_addTagName_spec [OF Cons.prems(1) ld, of p ex, folded m1_def]
  note i1 = s1 [THEN conjunct1]
  note e1 = s1 [THEN conjunct2, THEN conjunct1]
  note l1 = s1 [THEN conjunct2, THEN conjunct2]
  from Cons.prems(2) have "\<forall>d \<in> set ds. toLowerCase d = d" by simp
  note ih = Cons.IH [OF i1 this, folded m'_def]
  note i2 = ih [THEN conjunct1]
  note e2 = ih [THEN conjunct2, THEN conjunct1]
  note l2 = ih [THEN conjunct2, THEN conjunct2]
  have e: "mem_extends p (set (d # ds) - set ex - {[]}) m m'"
  proof (rule mem_extends_trans)
    show "mem_extends p (set (d # ds) - set ex - {[]}) m m1"
      using e1 by (rule mem_extends_mono) auto
    show "mem_extends p (set (d # ds) - set ex - {[]}) m1 m'"
      using e2 by (rule mem_extends_mono) auto
  qed
  have "\<exists>t \<in> set (map snd (mem_tags m')). toLowerCase (tag_name t) = d \<and> mem_linked m' p (tag_id t)"
    if "d \<notin> set ex" "d \<noteq> []"
  proof -
    from l1 that obtain t where "t \<in> set (map snd (mem_tags m1))" "toLowerCase (tag_name t) = d"
      "mem_linked m1 p (tag_id t)" by blast
    with mem_extends_tags [OF e2] mem_extends_linked [OF e2] show ?thesis
      by blast
  qed
  with l2 have l: "\<forall>d' \<in> set (d # ds) - set ex - {[]}.
       \<exists>t \<in> set (map snd (mem_tags m')). toLowerCase (tag_name t) = d' \<and> mem_linked m' p (tag_id t)"
    by auto
  have "mem_addTags p ex m (d # ds) = m'" by (simp add: m'_def m1_def)
  with i2 e l show ?case by simp
qed


lemma mem_removeTagFromPost_cases:
  assumes "distinct (map fst (mem_postTags m))"
  shows "(\<not> mem_linked m p i \<and> snd (mem_removeTagFromPost m p i) = m)
       \<or> (\<exists>xs k pt ys. mem_postTags m = xs @ (k, pt) # ys \<and> pt_postId pt = p \<and> pt_tagId pt = i
             \<and> snd (mem_removeTagFromPost m p i) = m\<lparr>mem_postTags := xs @ ys\<rparr>)"
proof (cases "find (\<lambda>(k, pt). pt_postId pt = p \<and> pt_tagId pt = i) (mem_postTags m)")
  case None
  then have "\<not> mem_linked m p i"
    by (auto simp: find_None_iff mem_linked_def list_ex_iff)
  with None show ?thesis by (simp add: mem_removeTagFromPost_def)
next
  case (Some x)
  obtain k pt where x: "x = (k, pt)" by (cases x)
  from find_split [OF Some] x obtain xs ys where
    s: "mem_postTags m = xs @ (k, pt) # ys" "pt_postId pt = p" "pt_tagId pt = i"
    by auto
  from assms s(1) have "k \<notin> fst ` set xs" "k \<notin> fst ` set ys" by auto
  then have "AList.delete k (mem_postTags m) = xs @ ys"
    unfolding s(1) by (rule delete_split)
  with Some x have "snd (mem_removeTagFromPost m p i) = m\<lparr>mem_postTags := xs @ ys\<rparr>"
    by (simp add: mem_removeTagFromPost_def)
  with s show ?thesis by blast
qed

lemma mem_removeTags_spec:
  assumes "distinct (map fst (mem_postTags m))"
    and "\<forall>e \<in> set es. (toLowerCase (tag_name e) \<notin> set U) = (tag_id e \<in> RI)"
    and "mset (map (\<lambda>x. pt_tagId (snd x))
               (filter (\<lambda>x. pt_postId (snd x) = p \<and> pt_tagId (snd x) \<in> RI) (mem_postTags m)))
         \<subseteq># mset (filter (\<lambda>i. i \<in> RI) (map tag_id es))"
  shows "mem_removeTags p U m es
           = m\<lparr>mem_postTags :=
                 filter (\<lambda>x. \<not> (pt_postId (snd x) = p \<and> pt_tagId (snd x) \<in> RI)) (mem_postTags m)\<rparr>"
  using assms
proof (induction es arbitrary: m)
  case Nil
  from Nil.prems(3)
  have "filter (\<lambda>x. pt_postId (snd x) = p \<and> pt_tagId (snd x) \<in> RI) (mem_postTags m) = []"
    by (auto simp: filter_empty_conv)
  then have "filter (\<lambda>x. \<not> (pt_postId (snd x) = p \<and> pt_tagId (snd x) \<in> RI)) (mem_postTags m)
             = mem_postTags m"
    by (simp add: filter_empty_conv filter_id_conv)
  then show ?case by simp
next
  case (Cons e es)
  let ?hit = "\<lambda>x. pt_postId (snd x) = p \<and> pt_tagId (snd x) \<in> RI"
  from Cons.prems(2) have c: "\<forall>e \<in> set es. (toLowerCase (tag_name e) \<notin> set U) = (tag_id e \<in> RI)"
    by simp
  show ?case
  proof (cases "tag_id e \<in> RI")
    case False
    with Cons.prems(2) have k: "toLowerCase (tag_name e) \<in> set U" by simp
    from Cons.prems(3) False
    have "mset (map (\<lambda>x. pt_tagId (snd x)) (filter ?hit (mem_postTags m)))
            \<subseteq># mset (filter (\<lambda>i. i \<in> RI) (map tag_id es))" by simp
    from Cons.IH [OF Cons.prems(1) c this] k show ?thesis by simp
  next
    case True
    with Cons.prems(2) have k: "toLowerCase (tag_name e) \<notin> set U" by simp
    define m' where "m' = snd (mem_removeTagFromPost m p (tag_id e))"
    have r: "mem_removeTags p U m (e # es) = mem_removeTags p U m' es"
      using k by (simp add: m'_def)
    from Cons.prems(3) True
    have sub: "mset (map (\<lambda>x. pt_tagId (snd x)) (filter ?hit (mem_postTags m)))
            \<subseteq># add_mset (tag_id e) (mset (filter (\<lambda>i. i \<in> RI) (map tag_id es)))" by simp
    from mem_removeTagFromPost_cases [OF Cons.prems(1), of p "tag_id e", folded m'_def]
    show ?thesis
    proof (elim disjE conjE exE)
      assume n: "\<not> mem_linked m p (tag_id e)" and m': "m' = m"
      define A where "A = mset (map (\<lambda>x. pt_tagId (snd x)) (filter ?hit (mem_postTags m)))"
      define B where "B = mset (filter (\<lambda>i. i \<in> RI) (map tag_id es))"
      from n have "\<forall>x \<in> set (mem_postTags m). \<not> (pt_postId (snd x) = p \<and> pt_tagId (snd x) = tag_id e)"
        by (auto simp: mem_linked_def list_ex_iff)
      then have "tag_id e \<notin> set (map (\<lambda>x. pt_tagId (snd x)) (filter ?hit (mem_postTags m)))"
        by auto
      then have "tag_id e \<notin># A" by (simp add: A_def)
      then have "A - {#tag_id e#} = A" by (rule diff_single_trivial)
      moreover from sub have "A \<subseteq># B + {#tag_id e#}" by (simp add: A_def B_def)
      then have "A - {#tag_id e#} \<subseteq># B" by (simp only: subset_eq_diff_conv)
      ultimately have "A \<subseteq># B" by (simp only:)
      then have "mset (map (\<lambda>x. pt_tagId (snd x)) (filter ?hit (mem_postTags m)))
            \<subseteq># mset (filter (\<lambda>i. i \<in> RI) (map tag_id es))"
        by (simp only: A_def B_def)
      from Cons.IH [OF Cons.prems(1) c this] r m' show ?thesis by simp
    next
      fix xs k' pt ys
      assume s: "mem_postTags m = xs @ (k', pt) # ys" "pt_postId pt = p" "pt_tagId pt = tag_id e"
        and m': "m' = m\<lparr>mem_postTags := xs @ ys\<rparr>"
      have d': "distinct (map fst (mem_postTags m'))"
        using Cons.prems(1) by (simp add: m' s(1))
      have "mset (map (\<lambda>x. pt_tagId (snd x)) (filter ?hit (mem_postTags m)))
              = add_mset (tag_id e) (mset (map (\<lambda>x. pt_tagId (snd x)) (filter ?hit (mem_postTags m'))))"
        using True s by (simp add: m')
      with sub have "mset (map (\<lambda>x. pt_tagId (snd x)) (filter ?hit (mem_postTags m')))
            \<subseteq># mset (filter (\<lambda>i. i \<in> RI) (map tag_id es))"
        by simp
      from Cons.IH [OF d' c this]
      have "mem_removeTags p U m' es
              = m'\<lparr>mem_postTags := filter (\<lambda>x. \<not> ?hit x) (mem_postTags m')\<rparr>" .
      also have "\<dots> = m\<lparr>mem_postTags := filter (\<lambda>x. \<not> ?hit x) (mem_postTags m)\<rparr>"
        using True s by (simp add: m')
      finally show ?thesis using r by simp
    qed
  qed
qed


lemma removed_ids_of_rows:
  assumes "\<And>i t. f i = Some t \<Longrightarrow> tag_id t = i"
    and "\<And>i. i \<in> RI \<Longrightarrow> f i \<noteq> None"
  shows "filter (\<lambda>i. i \<in> RI)
           (map tag_id (List.map_filter (\<lambda>pt. f (pt_tagId pt))
                          (filter (\<lambda>pt. pt_postId pt = p) (map snd ps))))
         = map (\<lambda>x. pt_tagId (snd x))
             (filter (\<lambda>x. pt_postId (snd x) = p \<and> pt_tagId (snd x) \<in> RI) ps)"
proof (induction ps)
  case Nil
  then show ?case by (simp add: map_filter_simps)
next
  case (Cons x ps)
  show ?case
  proof (cases "f (pt_tagId (snd x))")
    case None
    with assms(2) [of "pt_tagId (snd x)"] have "pt_tagId (snd x) \<notin> RI" by auto
    with None Cons.IH show ?thesis by (simp add: map_filter_simps)
  next
    case (Some t)
    with assms(1) have "tag_id t = pt_tagId (snd x)" by simp
    with Some Cons.IH show ?thesis by (simp add: map_filter_simps)
  qed
qed

lemma mem_updatePostTags_result:
  assumes "mem_inv m"
  shows "mem_inv (snd (mem_updatePostTags m p names))
       \<and> fst (mem_updatePostTags m p names)
           = map tag_name (mem_getTagsByPostId (snd (mem_updatePostTags m p names)) p)
       \<and> toLowerCase ` tag_name ` set (mem_getTagsByPostId (snd (mem_updatePostTags m p names)) p)
           = set (mem_uniqueTags names) - {[]}
       \<and> mem_posts (snd (mem_updatePostTags m p names)) = mem_posts m
       \<and> mem_users (snd (mem_updatePostTags m p names)) = mem_users m
       \<and> mem_comments (snd (mem_updatePostTags m p names)) = mem_comments m
       \<and> (\<forall>x. pt_postId (snd x) \<noteq> p \<longrightarrow>
             (x \<in> set (mem_postTags (snd (mem_updatePostTags m p names)))
                \<longleftrightarrow> x \<in> set (mem_postTags m)))"
proof -
  define es where "es = mem_getTagsByPostId m p"
  define ex where "ex = map (\<lambda>t. toLowerCase (tag_name t)) es"
  define U where "U = mem_uniqueTags names"
  define R where "R = {e \<in> set es. toLowerCase (tag_name e) \<notin> set U}"
  define RI where "RI = tag_id ` R"
  define m1 where "m1 = mem_addTags p ex m U"
  define m2 where "m2 = mem_removeTags p U m1 es"
  have res: "mem_updatePostTags m p names = (map tag_name (mem_getTagsByPostId m2 p), m2)"
    by (simp add: mem_updatePostTags_def Let_def m2_def m1_def U_def ex_def es_def)
  have "\<forall>d \<in> set U. toLowerCase d = d" by (simp add: U_def mem_uniqueTags_lower)
  note a = mem_addTags_spec [OF assms this, of p ex, folded m1_def]
  note i1 = a [THEN conjunct1]
  note e1 = a [THEN conjunct2, THEN conjunct1]
  note l1 = a [THEN conjunct2, THEN conjunct2]
  from e1 obtain new rows where
    x: "mem_tags m1 = mem_tags m @ new"
       "\<forall>t \<in> set (map snd new). toLowerCase (tag_name t) \<in> set U - set ex - {[]}"
       "mem_postTags m1 = mem_postTags m @ rows"
       "\<forall>pt \<in> set (map snd rows). pt_postId pt = p
          \<and> (\<exists>t \<in> set (map snd (mem_tags m1)). tag_id t = pt_tagId pt
                \<and> toLowerCase (tag_name t) \<in> set U - set ex - {[]})"
       "mem_posts m1 = mem_posts m" "mem_users m1 = mem_users m" "mem_comments m1 = mem_comments m"
    unfolding mem_extends_def by blast
  have es_iff: "e \<in> set es \<longleftrightarrow> e \<in> set (map snd (mem_tags m)) \<and> mem_linked m p (tag_id e)" for e
    unfolding es_def by (rule mem_getTagsByPostId_iff [OF assms])
  have old: "e \<in> set (map snd (mem_tags m1))" if "e \<in> set es" for e
    using that es_iff mem_extends_tags [OF e1] by blast
  have notR: "tag_id t \<notin> RI"
    if "t \<in> set (map snd (mem_tags m1))" "toLowerCase (tag_name t) \<in> set U" for t
  proof
    assume "tag_id t \<in> RI"
    then obtain e where e: "e \<in> set es" "toLowerCase (tag_name e) \<notin> set U" "tag_id t = tag_id e"
      by (auto simp: RI_def R_def)
    from mem_inv_tag_eq [OF i1 that(1) old [OF e(1)] e(3)] e(2) that(2) show False by simp
  qed
  have cons: "\<forall>e \<in> set es. (toLowerCase (tag_name e) \<notin> set U) = (tag_id e \<in> RI)"
  proof
    fix e assume e: "e \<in> set es"
    show "(toLowerCase (tag_name e) \<notin> set U) = (tag_id e \<in> RI)"
    proof
      assume "toLowerCase (tag_name e) \<notin> set U"
      with e show "tag_id e \<in> RI" by (auto simp: RI_def R_def)
    next
      assume "tag_id e \<in> RI"
      with notR [OF old [OF e]] show "toLowerCase (tag_name e) \<notin> set U" by blast
    qed
  qed
  have rows_miss: "\<not> (pt_postId (snd r) = p \<and> pt_tagId (snd r) \<in> RI)" if "r \<in> set rows" for r
  proof -
    from that have "snd r \<in> set (map snd rows)" by simp
    with x(4) obtain t where "t \<in> set (map snd (mem_tags m1))" "tag_id t = pt_tagId (snd r)"
      "toLowerCase (tag_name t) \<in> set U" by blast
    with notR [OF this(1) this(3)] show ?thesis by simp
  qed
  then have fr: "filter (\<lambda>x. pt_postId (snd x) = p \<and> pt_tagId (snd x) \<in> RI) rows = []"
    by (simp add: filter_empty_conv)
  have f1: "map_of (mem_tags m) i = Some t \<Longrightarrow> tag_id t = i" for i t
    using mem_inv_map_of [OF assms, of i t] by simp
  have f2: "map_of (mem_tags m) i \<noteq> None" if "i \<in> RI" for i
  proof -
    from that obtain e where e: "e \<in> set es" "tag_id e = i" by (auto simp: RI_def R_def)
    from e(1) es_iff have "e \<in> set (map snd (mem_tags m))" by blast
    with e(2) have "map_of (mem_tags m) i = Some e"
      by (intro iffD2 [OF mem_inv_map_of [OF assms]] conjI)
    then show ?thesis by simp
  qed
  have ids: "filter (\<lambda>i. i \<in> RI) (map tag_id es)
         = map (\<lambda>x. pt_tagId (snd x))
             (filter (\<lambda>x. pt_postId (snd x) = p \<and> pt_tagId (snd x) \<in> RI) (mem_postTags m))"
    unfolding es_def mem_getTagsByPostId_def
    by (rule removed_ids_of_rows [of "map_of (mem_tags m)" RI, OF f1 f2])
  have ms: "mset (map (\<lambda>x. pt_tagId (snd x))
               (filter (\<lambda>x. pt_postId (snd x) = p \<and> pt_tagId (snd x) \<in> RI) (mem_postTags m1)))
         \<subseteq># mset (filter (\<lambda>i. i \<in> RI) (map tag_id es))"
    by (simp add: x(3) fr ids)
  from i1 have d1: "distinct (map fst (mem_postTags m1))" by (simp add: mem_inv_def)
  have m2: "m2 = m1\<lparr>mem_postTags :=
                 filter (\<lambda>x. \<not> (pt_postId (snd x) = p \<and> pt_tagId (snd x) \<in> RI)) (mem_postTags m1)\<rparr>"
    unfolding m2_def by (rule mem_removeTags_spec [OF d1 cons ms])
  have i2: "mem_inv m2"
    using i1 by (auto simp: m2 mem_inv_def list_all_iff distinct_map_filter)
  have t2: "mem_tags m2 = mem_tags m1" by (simp add: m2)
  have l2: "mem_linked m2 q i \<longleftrightarrow> mem_linked m1 q i \<and> \<not> (q = p \<and> i \<in> RI)" for q i
    by (force simp: mem_linked_def list_ex_iff m2)
  have g2: "t \<in> set (mem_getTagsByPostId m2 p)
              \<longleftrightarrow> t \<in> set (map snd (mem_tags m1)) \<and> mem_linked m1 p (tag_id t) \<and> tag_id t \<notin> RI" for t
    by (simp add: mem_getTagsByPostId_iff [OF i2] t2 l2)
  have nonempty: "tag_name t \<noteq> []" if "t \<in> set (map snd (mem_tags m1))" for t
    using that i1 by (auto simp: mem_inv_def list_all_iff)
  have sub: "toLowerCase (tag_name t) \<in> set U - {[]}" if "t \<in> set (mem_getTagsByPostId m2 p)" for t
  proof (rule ccontr)
    assume n0: "toLowerCase (tag_name t) \<notin> set U - {[]}"
    from that g2 have t: "t \<in> set (map snd (mem_tags m1))" "mem_linked m1 p (tag_id t)"
      "tag_id t \<notin> RI" by blast+
    from nonempty [OF t(1)] n0 have n: "toLowerCase (tag_name t) \<notin> set U"
      by (simp add: toLowerCase_Nil_iff)
    from t(1) n x(1,2) have ts: "t \<in> set (map snd (mem_tags m))" by auto
    from t(2) obtain pt where pt: "pt \<in> set (map snd (mem_postTags m1))" "pt_postId pt = p"
      "pt_tagId pt = tag_id t"
      unfolding mem_linked_iff by blast
    show False
    proof (cases "pt \<in> set (map snd rows)")
      case True
      with x(4) obtain t' where "t' \<in> set (map snd (mem_tags m1))" "tag_id t' = pt_tagId pt"
        "toLowerCase (tag_name t') \<in> set U" by blast
      with pt(3) have "t' \<in> set (map snd (mem_tags m1))" "tag_id t' = tag_id t"
        "toLowerCase (tag_name t') \<in> set U" by simp_all
      with mem_inv_tag_eq [OF i1 this(1) t(1)] n show False by simp
    next
      case False
      with pt x(3) have "mem_linked m p (tag_id t)" unfolding mem_linked_iff by auto
      with ts es_iff have "t \<in> set es" by blast
      with n t(3) show False by (auto simp: RI_def R_def)
    qed
  qed
  have sup: "d \<in> toLowerCase ` tag_name ` set (mem_getTagsByPostId m2 p)"
    if d: "d \<in> set U" "d \<noteq> []" for d
  proof (cases "d \<in> set ex")
    case True
    then obtain e where e: "e \<in> set es" "toLowerCase (tag_name e) = d" by (auto simp: ex_def)
    from e(1) es_iff have "mem_linked m p (tag_id e)" by blast
    with e1 have "mem_linked m1 p (tag_id e)" by (rule mem_extends_linked)
    moreover have "tag_id e \<notin> RI" using notR [OF old [OF e(1)]] e(2) d by simp
    ultimately have "e \<in> set (mem_getTagsByPostId m2 p)"
      using old [OF e(1)] g2 by blast
    with e(2) show ?thesis by force
  next
    case False
    with l1 d obtain t where t: "t \<in> set (map snd (mem_tags m1))" "toLowerCase (tag_name t) = d"
      "mem_linked m1 p (tag_id t)" by blast
    have "tag_id t \<notin> RI" using notR [OF t(1)] t(2) d by simp
    with t g2 have "t \<in> set (mem_getTagsByPostId m2 p)" by blast
    with t(2) show ?thesis by force
  qed
  have eq: "toLowerCase ` tag_name ` set (mem_getTagsByPostId m2 p) = set U - {[]}"
    using sub sup by auto
  have fr2: "mem_posts m2 = mem_posts m" "mem_users m2 = mem_users m" "mem_comments m2 = mem_comments m"
    using x(5-7) by (simp_all add: m2)
  have oth: "\<forall>x. pt_postId (snd x) \<noteq> p \<longrightarrow>
               (x \<in> set (mem_postTags m2) \<longleftrightarrow> x \<in> set (mem_postTags m))"
  proof (intro allI impI)
    fix x :: "int \<times> PostTag" assume q: "pt_postId (snd x) \<noteq> p"
    with x(4) have "x \<notin> set rows" by auto
    with q show "x \<in> set (mem_postTags m2) \<longleftrightarrow> x \<in> set (mem_postTags m)"
      by (simp add: m2 x(3))
  qed
  from i2 eq fr2 oth show ?thesis
    unfolding res U_def by simp
qed

section \<open>updatePostTags: the tags read back\<close>

lemma mem_inv_mem_tagged: "mem_inv mem_tagged"
  by (simp add: mem_inv_def mem_tagged_def)

lemma set_uniqueTags_eq: "set (mem_uniqueTags names) - {[]} = set (db_uniqueTags names)"
  by (simp add: set_db_uniqueTags set_mem_uniqueTags)

text \<open>
  C1: for names whose canonical form (lower-cased, trimmed, empty strings dropped,
  duplicates removed) is not empty, the names of the tags linked to the post after
  \<open>updatePostTags\<close>, lower-cased, are exactly the canonical set; \<open>updatePostTags\<close> returns
  the names it reads back. Both stores, from a well-formed store.
\<close>

theorem updatePostTags_read_back:
  assumes "db_inv s" and "mem_inv m"
    and "(\<lambda>n. trim (toLowerCase n)) ` set names - {[]} \<noteq> {}"
  shows "(\<exists>s'. db_updatePostTags s p names = Inr (map tag_name (db_getTagsByPostId s' p), s')
              \<and> toLowerCase ` set (map tag_name (db_getTagsByPostId s' p))
                  = (\<lambda>n. trim (toLowerCase n)) ` set names - {[]})
       \<and> fst (mem_updatePostTags m p names)
           = map tag_name (mem_getTagsByPostId (snd (mem_updatePostTags m p names)) p)
       \<and> toLowerCase ` set (map tag_name (mem_getTagsByPostId (snd (mem_updatePostTags m p names)) p))
           = (\<lambda>n. trim (toLowerCase n)) ` set names - {[]}"
proof -
  from db_updatePostTags_result [OF assms(1), of p names]
  obtain s' where "db_updatePostTags s p names = Inr (map tag_name (db_getTagsByPostId s' p), s')"
    "toLowerCase ` tag_name ` set (db_getTagsByPostId s' p) = set (db_uniqueTags names)"
    by blast
  then have d: "\<exists>s'. db_updatePostTags s p names = Inr (map tag_name (db_getTagsByPostId s' p), s')
              \<and> toLowerCase ` set (map tag_name (db_getTagsByPostId s' p))
                  = (\<lambda>n. trim (toLowerCase n)) ` set names - {[]}"
    by (auto simp: set_db_uniqueTags)
  note r = mem_updatePostTags_result [OF assms(2), of p names]
  from r have "toLowerCase ` tag_name ` set (mem_getTagsByPostId (snd (mem_updatePostTags m p names)) p)
           = set (mem_uniqueTags names) - {[]}" by blast
  then have "toLowerCase ` set (map tag_name (mem_getTagsByPostId (snd (mem_updatePostTags m p names)) p))
           = (\<lambda>n. trim (toLowerCase n)) ` set names - {[]}"
    by (simp add: set_uniqueTags_eq set_db_uniqueTags)
  with d r show ?thesis by blast
qed

lemma canonical_go_new:
  "(\<lambda>n. trim (toLowerCase n)) ` set [''Go '', '' NEW'', ''go''] - {[]} = {''go'', ''new''}"
proof -
  have "trim (toLowerCase ''Go '') = ''go''" "trim (toLowerCase '' NEW'') = ''new''"
    "trim (toLowerCase ''go'') = ''go''"
    by code_simp+
  then show ?thesis by auto
qed

theorem updatePostTags_read_back_witness:
  "fst (projr (db_updatePostTags db_tagged 1 [''Go '', '' NEW'', ''go''])) = [''go'', ''new'']
   \<and> fst (mem_updatePostTags mem_tagged 1 [''Go '', '' NEW'', ''go'']) = [''go'', ''new'']
   \<and> toLowerCase ` set [''go'', ''new'']
       = (\<lambda>n. trim (toLowerCase n)) ` set [''Go '', '' NEW'', ''go''] - {[]}"
proof -
  have a: "fst (projr (db_updatePostTags db_tagged 1 [''Go '', '' NEW'', ''go''])) = [''go'', ''new'']"
    by code_simp
  have b: "fst (mem_updatePostTags mem_tagged 1 [''Go '', '' NEW'', ''go'']) = [''go'', ''new'']"
    by code_simp
  have c: "(\<lambda>n. trim (toLowerCase n)) ` set [''Go '', '' NEW'', ''go''] - {[]} \<noteq> {}"
    unfolding canonical_go_new by simp
  from updatePostTags_read_back [OF db_inv_db_tagged mem_inv_mem_tagged c, of 1] a b
  show ?thesis by auto
qed


section \<open>updatePostTags with no canonical name\<close>

text \<open>
  C4, as stated: \<open>updatePostTags\<close> with names whose canonical form is empty leaves the
  tags of the post as they are. Post 1 has the tag \<open>go\<close>; after \<open>updatePostTags 1 [" "]\<close> it
  has none, in both stores.
\<close>

theorem updatePostTags_blank_counterexample:
  "db_uniqueTags ['' ''] = []
   \<and> map tag_name (db_getTagsByPostId db_tagged 1) = [''go'']
   \<and> db_updatePostTags db_tagged 1 ['' ''] = Inr ([], db_tagged\<lparr>db_postTags := []\<rparr>)
   \<and> map tag_name (mem_getTagsByPostId mem_tagged 1) = [''go'']
   \<and> mem_updatePostTags mem_tagged 1 ['' ''] = ([], mem_tagged\<lparr>mem_postTags := []\<rparr>)"
  by code_simp

text \<open>
  C4, amended: \<open>updatePostTags\<close> with names whose canonical form is empty removes the
  tags of the post: it returns no name, the post reads back with no tag, and the rows of
  the other posts are untouched. Both stores, from a well-formed store.
\<close>

theorem updatePostTags_empty_clears:
  assumes "db_inv s" and "mem_inv m"
    and "(\<lambda>n. trim (toLowerCase n)) ` set names - {[]} = {}"
  shows "(\<exists>s'. db_updatePostTags s p names = Inr ([], s') \<and> db_getTagsByPostId s' p = []
              \<and> (\<forall>pt. pt_postId pt \<noteq> p \<longrightarrow>
                    (pt \<in> set (db_postTags s') \<longleftrightarrow> pt \<in> set (db_postTags s))))
       \<and> fst (mem_updatePostTags m p names) = []
       \<and> mem_getTagsByPostId (snd (mem_updatePostTags m p names)) p = []
       \<and> (\<forall>x. pt_postId (snd x) \<noteq> p \<longrightarrow>
             (x \<in> set (mem_postTags (snd (mem_updatePostTags m p names)))
                \<longleftrightarrow> x \<in> set (mem_postTags m)))"
proof -
  from assms(3) have u: "set (db_uniqueTags names) = {}" by (simp add: set_db_uniqueTags)
  from db_updatePostTags_result [OF assms(1), of p names]
  obtain s' where 1: "db_updatePostTags s p names = Inr (map tag_name (db_getTagsByPostId s' p), s')"
    "toLowerCase ` tag_name ` set (db_getTagsByPostId s' p) = set (db_uniqueTags names)"
    "\<forall>pt. pt_postId pt \<noteq> p \<longrightarrow> (pt \<in> set (db_postTags s') \<longleftrightarrow> pt \<in> set (db_postTags s))"
    by blast
  from 1(2) u have "db_getTagsByPostId s' p = []" by simp
  with 1(1,3) have d: "\<exists>s'. db_updatePostTags s p names = Inr ([], s') \<and> db_getTagsByPostId s' p = []
              \<and> (\<forall>pt. pt_postId pt \<noteq> p \<longrightarrow>
                    (pt \<in> set (db_postTags s') \<longleftrightarrow> pt \<in> set (db_postTags s)))"
    by auto
  note r = mem_updatePostTags_result [OF assms(2), of p names]
  define m' where "m' = snd (mem_updatePostTags m p names)"
  from r have "toLowerCase ` tag_name ` set (mem_getTagsByPostId m' p) = set (mem_uniqueTags names) - {[]}"
    unfolding m'_def by blast
  with u have e: "mem_getTagsByPostId m' p = []" by (simp add: set_uniqueTags_eq)
  from r have "fst (mem_updatePostTags m p names) = map tag_name (mem_getTagsByPostId m' p)"
    unfolding m'_def by blast
  with e have f: "fst (mem_updatePostTags m p names) = []" by simp
  from r have o: "\<forall>x. pt_postId (snd x) \<noteq> p \<longrightarrow>
             (x \<in> set (mem_postTags m') \<longleftrightarrow> x \<in> set (mem_postTags m))"
    unfolding m'_def by blast
  from d e f o show ?thesis unfolding m'_def by blast
qed

theorem updatePostTags_empty_clears_witness:
  "db_updatePostTags db_tagged 1 ['''', ''  ''] = Inr ([], db_tagged\<lparr>db_postTags := []\<rparr>)
   \<and> mem_getTagsByPostId (snd (mem_updatePostTags mem_tagged 1 ['''', ''  ''])) 1 = []"
proof -
  have a: "db_updatePostTags db_tagged 1 ['''', ''  ''] = Inr ([], db_tagged\<lparr>db_postTags := []\<rparr>)"
    by code_simp
  have "trim (toLowerCase '''') = []" "trim (toLowerCase ''  '') = []" by code_simp+
  then have c: "(\<lambda>n. trim (toLowerCase n)) ` set ['''', ''  ''] - {[]} = {}" by auto
  from updatePostTags_empty_clears [OF db_inv_db_tagged mem_inv_mem_tagged c, of 1] a
  show ?thesis by blast
qed

text \<open>\<open>updatePost\<close> and the tags: with no tags or an empty list, no row is touched.\<close>

lemma updatePost_without_tags:
  assumes "\<not> tagsProvided (pip_tags postData)"
  shows "\<exists>r s'. db_updatePost s i postData = Inr (r, s') \<and> db_postTags s' = db_postTags s
                \<and> db_tags s' = db_tags s"
    and "mem_postTags (snd (mem_updatePost m i postData)) = mem_postTags m"
    and "mem_tags (snd (mem_updatePost m i postData)) = mem_tags m"
  using assms
  by (auto simp: db_updatePost_def mem_updatePost_def Let_def split: option.splits)


section \<open>updatePost: proofs\<close>

lemma setColumns_fields:
  "post_id (setColumns d q) = post_id q"
  "post_authorId (setColumns d q) = post_authorId q"
  "post_createdAt (setColumns d q) = post_createdAt q"
  by (simp_all add: setColumns_def Let_def split: option.splits)

lemma setColumns_updateData:
  "post_title (setColumns (updateData postData) q)
     = (if truthy (pip_title postData) then the (pip_title postData) else post_title q)"
  "post_body (setColumns (updateData postData) q)
     = (if truthy (pip_body postData) then the (pip_body postData) else post_body q)"
  by (auto simp: setColumns_def updateData_def truthy_def Let_def split: option.splits)

lemma setColumns_nothing: "setColumns (None, None) q = q"
  by (simp add: setColumns_def)

lemma find_map_same_id:
  assumes "\<And>p. post_id (g p) = post_id p"
  shows "find (\<lambda>q. post_id q = j) (map (\<lambda>p. if post_id p = i then g p else p) xs)
           = map_option (\<lambda>p. if post_id p = i then g p else p) (find (\<lambda>q. post_id q = j) xs)"
  by (induction xs) (auto simp: assms)

lemma mem_addTagName_posts: "mem_posts (mem_addTagName p ex m d) = mem_posts m"
  by (simp add: mem_addTagName_def mem_createTag_def mem_addTagToPost_def Let_def
        split: option.splits)

lemma mem_addTags_posts: "mem_posts (mem_addTags p ex m ds) = mem_posts m"
  by (induction ds arbitrary: m) (simp_all add: mem_addTagName_posts)

lemma mem_removeTags_posts: "mem_posts (mem_removeTags p U m es) = mem_posts m"
  by (induction es arbitrary: m)
     (simp_all add: mem_removeTagFromPost_def split: option.splits prod.splits)

lemma mem_updatePostTags_posts: "mem_posts (snd (mem_updatePostTags m p names)) = mem_posts m"
  by (simp add: mem_updatePostTags_def Let_def mem_removeTags_posts mem_addTags_posts)

lemma db_updatePost_stored:
  assumes "db_inv s"
  shows "\<exists>r s'. db_updatePost s i postData = Inr (r, s') \<and> db_inv s'
           \<and> find (\<lambda>q. post_id q = i) (db_posts s')
               = map_option (setColumns (updateData postData)) (find (\<lambda>q. post_id q = i) (db_posts s))"
proof (cases "updateData postData = (None, None)")
  case True
  with assms show ?thesis
    by (cases "find (\<lambda>q. post_id q = i) (db_posts s)")
       (simp_all add: db_updatePost_def setColumns_nothing)
next
  case False
  define s1 where "s1 = s\<lparr>db_posts := map (\<lambda>p. if post_id p = i
                                             then setColumns (updateData postData) p else p)
                                      (db_posts s)\<rparr>"
  have f: "find (\<lambda>q. post_id q = i) (db_posts s1)
             = map_option (setColumns (updateData postData)) (find (\<lambda>q. post_id q = i) (db_posts s))"
  proof (cases "find (\<lambda>q. post_id q = i) (db_posts s)")
    case None
    then show ?thesis
      by (simp add: s1_def find_map_same_id [of "setColumns (updateData postData)", OF setColumns_fields(1)])
  next
    case (Some q)
    then have "post_id q = i" by (auto simp: find_Some_iff)
    with Some show ?thesis
      by (simp add: s1_def find_map_same_id [of "setColumns (updateData postData)", OF setColumns_fields(1)])
  qed
  have i1: "db_inv s1" using assms by (auto simp: s1_def db_inv_def list_all_iff setColumns_fields)
  have unf: "db_updatePost s i postData
      = (case find (\<lambda>p. post_id p = i) (db_posts s1) of
           None \<Rightarrow> Inr (None, s1)
         | Some updatedPost \<Rightarrow>
             (if tagsProvided (pip_tags postData)
              then (case db_updatePostTags s1 i (the (pip_tags postData)) of
                      Inl e \<Rightarrow> Inl e
                    | Inr (_, s2) \<Rightarrow> Inr (Some updatedPost, s2))
              else Inr (Some updatedPost, s1)))"
    using False unfolding s1_def by (simp add: db_updatePost_def Let_def)
  show ?thesis
  proof (cases "find (\<lambda>q. post_id q = i) (db_posts s1)")
    case None
    then have "db_updatePost s i postData = Inr (None, s1)" by (simp add: unf)
    with f i1 show ?thesis by blast
  next
    case (Some u)
    show ?thesis
    proof (cases "tagsProvided (pip_tags postData)")
      case False
      with Some have "db_updatePost s i postData = Inr (Some u, s1)" by (simp add: unf)
      with f i1 show ?thesis by blast
    next
      case True
      from db_updatePostTags_result [OF i1, of i "the (pip_tags postData)"]
      obtain r2 s2 where 2: "db_updatePostTags s1 i (the (pip_tags postData)) = Inr (r2, s2)"
        "db_posts s2 = db_posts s1" "db_inv s2" by blast
      with True Some have "db_updatePost s i postData = Inr (Some u, s2)" by (simp add: unf)
      moreover from f 2(2) have "find (\<lambda>q. post_id q = i) (db_posts s2)
             = map_option (setColumns (updateData postData)) (find (\<lambda>q. post_id q = i) (db_posts s))"
        by simp
      ultimately show ?thesis using 2(3) by blast
    qed
  qed
qed

lemma mem_updatePost_stored:
  assumes "map_of (mem_posts m) i = Some q"
  shows "map_of (mem_posts (snd (mem_updatePost m i postData))) i
           = Some (setColumns (updateData postData) q)"
  using assms
  by (simp add: mem_updatePost_def Let_def mem_updatePostTags_posts update_conv')

text \<open>
  C9: \<open>updatePost\<close> on an existing post changes only the supplied non-empty fields: the
  stored title (body) is the given one when it is present and not empty, and the old one
  otherwise; id, authorId and createdAt stay. Both stores; \<open>DatabaseStorage\<close> raises no
  constraint error from a well-formed store.
\<close>

theorem updatePost_frame:
  assumes "db_inv s"
    and "find (\<lambda>x. post_id x = i) (db_posts s) = Some q"
    and "map_of (mem_posts m) j = Some q'"
  shows "(\<exists>r s' u. db_updatePost s i postData = Inr (r, s')
            \<and> find (\<lambda>x. post_id x = i) (db_posts s') = Some u
            \<and> post_id u = post_id q \<and> post_authorId u = post_authorId q
            \<and> post_createdAt u = post_createdAt q
            \<and> post_title u = (if truthy (pip_title postData)
                               then the (pip_title postData) else post_title q)
            \<and> post_body u = (if truthy (pip_body postData)
                              then the (pip_body postData) else post_body q))
       \<and> (\<exists>u. map_of (mem_posts (snd (mem_updatePost m j postData))) j = Some u
            \<and> post_id u = post_id q' \<and> post_authorId u = post_authorId q'
            \<and> post_createdAt u = post_createdAt q'
            \<and> post_title u = (if truthy (pip_title postData)
                               then the (pip_title postData) else post_title q')
            \<and> post_body u = (if truthy (pip_body postData)
                              then the (pip_body postData) else post_body q'))"
proof -
  from db_updatePost_stored [OF assms(1), of i postData] assms(2)
  obtain r s' where "db_updatePost s i postData = Inr (r, s')"
    "find (\<lambda>x. post_id x = i) (db_posts s') = Some (setColumns (updateData postData) q)"
    by auto
  then have d: "\<exists>r s' u. db_updatePost s i postData = Inr (r, s')
            \<and> find (\<lambda>x. post_id x = i) (db_posts s') = Some u
            \<and> post_id u = post_id q \<and> post_authorId u = post_authorId q
            \<and> post_createdAt u = post_createdAt q
            \<and> post_title u = (if truthy (pip_title postData)
                               then the (pip_title postData) else post_title q)
            \<and> post_body u = (if truthy (pip_body postData)
                              then the (pip_body postData) else post_body q)"
    by (intro exI [of _ r] exI [of _ s'] exI [of _ "setColumns (updateData postData) q"])
       (simp add: setColumns_fields setColumns_updateData)
  have "\<exists>u. map_of (mem_posts (snd (mem_updatePost m j postData))) j = Some u
            \<and> post_id u = post_id q' \<and> post_authorId u = post_authorId q'
            \<and> post_createdAt u = post_createdAt q'
            \<and> post_title u = (if truthy (pip_title postData)
                               then the (pip_title postData) else post_title q')
            \<and> post_body u = (if truthy (pip_body postData)
                              then the (pip_body postData) else post_body q')"
    by (intro exI [of _ "setColumns (updateData postData) q'"])
       (simp add: mem_updatePost_stored [OF assms(3)] setColumns_fields setColumns_updateData)
  with d show ?thesis by blast
qed


theorem updatePost_frame_witness:
  "(\<exists>r s' u. db_updatePost db_tagged 1 title_only = Inr (r, s')
       \<and> find (\<lambda>x. post_id x = 1) (db_posts s') = Some u
       \<and> post_id u = 1 \<and> post_authorId u = 1 \<and> post_createdAt u = 0
       \<and> post_title u = ''new title'' \<and> post_body u = ''one'')
   \<and> (\<exists>u. map_of (mem_posts (snd (mem_updatePost mem_tagged 1 title_only))) 1 = Some u
       \<and> post_id u = 1 \<and> post_authorId u = 1 \<and> post_createdAt u = 0
       \<and> post_title u = ''new title'' \<and> post_body u = ''one'')"
proof -
  have a: "find (\<lambda>x. post_id x = 1) (db_posts db_tagged) = Some post1"
    by (simp add: db_tagged_def post1_def)
  have b: "map_of (mem_posts mem_tagged) 1 = Some post1"
    by (simp add: mem_tagged_def)
  show ?thesis
    using updatePost_frame [OF db_inv_db_tagged a b, of title_only]
    by (simp add: post1_def truthy_def title_only_def)
qed


section \<open>The stores stay well-formed\<close>

text \<open>
  The routes change the tags and the post-tag rows through \<open>createPost\<close>, \<open>updatePost\<close>,
  \<open>updatePostTags\<close> and \<open>deletePost\<close> only; each of them keeps a store well-formed, and a
  new \<open>MemStorage\<close> is.
\<close>

lemma db_inv_deletePost: "db_inv s \<Longrightarrow> db_inv (snd (db_deletePost s i))"
  by (auto simp: db_deletePost_def Let_def db_inv_def list_all_iff)

lemma db_inv_updatePostTags:
  assumes "db_inv s" and "db_updatePostTags s p names = Inr (r, s')"
  shows "db_inv s'"
  using db_updatePostTags_result [OF assms(1), of p names] assms(2) by auto

lemma db_inv_updatePost:
  assumes "db_inv s" and "db_updatePost s i postData = Inr (r, s')"
  shows "db_inv s'"
  using db_updatePost_stored [OF assms(1), of i postData] assms(2) by auto

lemma find_snoc_fresh: "find P xs = None \<Longrightarrow> P x \<Longrightarrow> find P (xs @ [x]) = Some x"
  by (induction xs) (auto split: if_splits)

lemma db_createPost_ok:
  assumes "db_inv s"
  shows "\<exists>post s'. db_createPost now s postData authorId = Inr (post, s') \<and> db_inv s'
           \<and> post_id post = db_posts_seq s \<and> post_createdAt post = now
           \<and> find (\<lambda>q. post_id q = post_id post) (db_posts s') = Some post
           \<and> (length (ip_tags postData) > 0 \<longrightarrow>
                toLowerCase ` set (map tag_name (db_getTagsByPostId s' (post_id post)))
                  = set (db_uniqueTags (ip_tags postData)))"
proof -
  define post where "post = \<lparr>post_id = db_posts_seq s, post_title = ip_title postData,
                  post_body = ip_body postData, post_authorId = authorId,
                  post_createdAt = now\<rparr>"
  define s2 where "s2 = s\<lparr>db_posts_seq := db_posts_seq s + 1, db_posts := db_posts s @ [post]\<rparr>"
  from assms have fresh: "\<forall>p \<in> set (db_posts s). post_id p \<noteq> db_posts_seq s"
    by (auto simp: db_inv_def list_all_iff)
  have i2: "db_inv s2" using assms by (auto simp: s2_def db_inv_def list_all_iff post_def)
  from fresh have "find (\<lambda>q. post_id q = db_posts_seq s) (db_posts s) = None"
    by (simp add: find_None_iff)
  then have f2: "find (\<lambda>q. post_id q = post_id post) (db_posts s2) = Some post"
    by (simp add: s2_def post_def find_snoc_fresh)
  have unf: "db_createPost now s postData authorId
      = (if length (ip_tags postData) > 0
         then (case db_updatePostTags s2 (db_posts_seq s) (ip_tags postData) of
                 Inl e \<Rightarrow> Inl e
               | Inr (_, s3) \<Rightarrow> Inr (post, s3))
         else Inr (post, s2))"
    using fresh unfolding s2_def post_def by (simp add: db_createPost_def Let_def)
  show ?thesis
  proof (cases "length (ip_tags postData) > 0")
    case False
    then have "db_createPost now s postData authorId = Inr (post, s2)" by (simp add: unf)
    with i2 f2 False show ?thesis by (auto simp: post_def)
  next
    case True
    from db_updatePostTags_result [OF i2, of "db_posts_seq s" "ip_tags postData"]
    obtain s3 where 3:
      "db_updatePostTags s2 (db_posts_seq s) (ip_tags postData)
         = Inr (map tag_name (db_getTagsByPostId s3 (db_posts_seq s)), s3)"
      "db_inv s3"
      "toLowerCase ` tag_name ` set (db_getTagsByPostId s3 (db_posts_seq s))
         = set (db_uniqueTags (ip_tags postData))"
      "db_posts s3 = db_posts s2"
      by blast
    from True 3(1) have "db_createPost now s postData authorId = Inr (post, s3)"
      by (simp add: unf)
    moreover have "post_id post = db_posts_seq s" "post_createdAt post = now"
      by (simp_all add: post_def)
    moreover from f2 3(4) have "find (\<lambda>q. post_id q = post_id post) (db_posts s3) = Some post"
      by simp
    moreover from 3(3) have "toLowerCase ` set (map tag_name (db_getTagsByPostId s3 (post_id post)))
                  = set (db_uniqueTags (ip_tags postData))"
      by (simp add: post_def)
    ultimately show ?thesis using 3(2) by blast
  qed
qed

lemma mem_inv_new: "mem_inv mem_new"
  by (simp add: mem_inv_def mem_new_def)

lemma mem_inv_updatePostTags: "mem_inv m \<Longrightarrow> mem_inv (snd (mem_updatePostTags m p names))"
  using mem_updatePostTags_result [of m p names] by blast

lemma mem_inv_posts_update: "mem_inv m \<Longrightarrow> mem_inv (m\<lparr>mem_postId := k, mem_posts := ps\<rparr>)"
  by (simp add: mem_inv_def)

lemma mem_inv_createPost:
  assumes "mem_inv m"
  shows "mem_inv (snd (mem_createPost now m postData authorId))"
proof -
  define post where "post = \<lparr>post_id = mem_postId m, post_title = ip_title postData,
      post_body = ip_body postData, post_authorId = authorId, post_createdAt = now\<rparr>"
  define m1 where "m1 = m\<lparr>mem_postId := mem_postId m + 1,
      mem_posts := AList.update (mem_postId m) post (mem_posts m)\<rparr>"
  have i1: "mem_inv m1" unfolding m1_def using assms by (rule mem_inv_posts_update)
  have "snd (mem_createPost now m postData authorId)
      = (if length (ip_tags postData) > 0
         then snd (mem_updatePostTags m1 (mem_postId m) (ip_tags postData)) else m1)"
    unfolding m1_def post_def by (simp add: mem_createPost_def Let_def)
  with i1 mem_inv_updatePostTags [OF i1] show ?thesis by simp
qed

lemma mem_inv_updatePost:
  assumes "mem_inv m"
  shows "mem_inv (snd (mem_updatePost m i postData))"
proof (cases "map_of (mem_posts m) i")
  case None
  with assms show ?thesis by (simp add: mem_updatePost_def)
next
  case (Some q)
  from assms
  have "mem_inv (m\<lparr>mem_posts := AList.update i (setColumns (updateData postData) q) (mem_posts m)\<rparr>)"
    by (simp add: mem_inv_def)
  from this mem_inv_updatePostTags [OF this] Some show ?thesis
    by (simp add: mem_updatePost_def Let_def)
qed

lemma mem_inv_deletePost:
  assumes "mem_inv m"
  shows "mem_inv (snd (mem_deletePost m i))"
  using assms
  by (auto simp: mem_deletePost_def Let_def mem_inv_def mem_deletePostTags_filter list_all_iff
        distinct_map_filter)

text \<open>The scenario of the specification: a post created with the tags API, api, Test.\<close>

lemma createPost_api_test:
  "map_option pwd_tags
     (db_getPost (snd (projr (db_createPost 5000 db_tagged
        \<lparr>ip_title = ''t'', ip_body = ''b'', ip_tags = [''API'', ''api'', ''Test'']\<rparr> 1))) 3)
     = Some [''api'', ''test'']"
  "map_option pwd_tags
     (mem_getPost (snd (mem_createPost 5000 mem_tagged
        \<lparr>ip_title = ''t'', ip_body = ''b'', ip_tags = [''API'', ''api'', ''Test'']\<rparr> 1)) 3)
     = Some [''api'', ''test'']"
  by code_simp+


end
